(* ===== verification/Swim_Prelude.thy ===== *)
theory Swim_Prelude
  imports Main "HOL-Library.Word" "HOL-Library.Multiset"
begin

text \<open>
  Shared vocabulary of the development.
  \<^item> \<open>cerr\<close>, \<open>result\<close>, \<open>rbind\<close>, \<open>c_assert\<close>, \<open>wp\<close>: a C function is a function into
    \<open>'a result = cerr + 'a\<close>. The left summand says how the run stopped: a failed
    \<open>assert\<close>, an array index out of range, a \<open>memcpy\<close> past the end of an object, a null
    dereference, a signed overflow, or \<open>exit(EXIT_FAILURE)\<close>. \<open>wp Er r Q\<close> reads: \<open>r\<close> stops with an error in \<open>Er\<close> or returns
    a value in \<open>Q\<close>.
  \<^item> \<open>for_loop\<close>: a counting \<open>for\<close> loop over a given list of index values.
  \<^item> \<open>memcpy\<close>, \<open>be_bytes\<close>, \<open>be_val\<close>: objects as byte lists, integers in network order.
  \<^item> \<open>bsearch\<close>, \<open>qsort\<close>: the two C library routines the membership view relies on,
    as functions of the comparison callback; the locale \<open>key_compare\<close> states what the
    callback promises and proves both routines correct from it.
  \<^item> \<open>result_simps\<close>, \<open>codec_defs\<close>: collections of facts for \<open>simp\<close>.
\<close>

section \<open>Types, errors and results\<close>

type_synonym byte = "8 word"
type_synonym uuid = "128 word"
type_synonym time_t = int

datatype cerr =
    AssertFailed     \<comment> \<open>a failed \<open>assert\<close>: abort\<close>
  | OutOfBounds      \<comment> \<open>an array index out of range\<close>
  | MemOverflow      \<comment> \<open>a \<open>memcpy\<close> past the end of an object\<close>
  | NullDeref        \<comment> \<open>a dereference of a null pointer\<close>
  | SignedOverflow   \<comment> \<open>overflow of a signed integer\<close>
  | ExitFailure      \<comment> \<open>\<open>exit(EXIT_FAILURE)\<close>\<close>

type_synonym 'a result = "cerr + 'a"

definition rbind :: "'a result \<Rightarrow> ('a \<Rightarrow> 'b result) \<Rightarrow> 'b result" where
  "rbind m f = (case m of Inl e \<Rightarrow> Inl e | Inr a \<Rightarrow> f a)"

definition c_assert :: "bool \<Rightarrow> unit result" where
  "c_assert b = (if b then Inr () else Inl AssertFailed)"

definition wp :: "(cerr \<Rightarrow> bool) \<Rightarrow> 'a result \<Rightarrow> ('a \<Rightarrow> bool) \<Rightarrow> bool" where
  "wp Er r Q \<longleftrightarrow> (case r of Inl e \<Rightarrow> Er e | Inr a \<Rightarrow> Q a)"

primrec for_loop :: "(nat \<Rightarrow> 's \<Rightarrow> 's result) \<Rightarrow> nat list \<Rightarrow> 's \<Rightarrow> 's result" where
  "for_loop body [] s = Inr s"
| "for_loop body (k # ks) s = rbind (body k s) (for_loop body ks)"

abbreviation INT_MAX :: nat where
  "INT_MAX \<equiv> 2147483647"

section \<open>Memory and integers in network byte order\<close>

definition memcpy :: "'a list \<Rightarrow> 'a list \<Rightarrow> nat \<Rightarrow> 'a list result" where
  "memcpy dst src n =
     (if n \<le> length dst \<and> n \<le> length src then Inr (take n src @ drop n dst)
      else Inl MemOverflow)"

fun be_bytes :: "nat \<Rightarrow> nat \<Rightarrow> byte list" where
  "be_bytes 0 v = []"
| "be_bytes (Suc n) v = word_of_nat (v div 256 ^ n) # be_bytes n v"

definition be_val :: "byte list \<Rightarrow> nat" where
  "be_val bs = foldl (\<lambda>a b. a * 256 + unat b) 0 bs"

text \<open>The value of an integer type of \<open>w\<close> bits whose object representation, read as an
  unsigned number, is \<open>v\<close>: two's complement.\<close>

definition to_signed :: "nat \<Rightarrow> nat \<Rightarrow> int" where
  "to_signed w v = (if v < 2 ^ (w - 1) then int v else int v - 2 ^ w)"

definition of_signed :: "nat \<Rightarrow> int \<Rightarrow> nat" where
  "of_signed w z = nat (z mod 2 ^ w)"

text \<open>\<open>htons\<close> on a host whose byte order is \<open>le\<close> (true: little endian).\<close>

definition c_htons :: "bool \<Rightarrow> 16 word \<Rightarrow> 16 word" where
  "c_htons le v = (if le then word_of_nat (256 * (unat v mod 256) + unat v div 256) else v)"

definition swap :: "'a list \<Rightarrow> nat \<Rightarrow> nat \<Rightarrow> 'a list" where
  "swap xs i j = xs[i := xs ! j, j := xs ! i]"

section \<open>The C library's binary search and sort\<close>

function bsearch_loop :: "('k \<Rightarrow> 'a \<Rightarrow> int) \<Rightarrow> 'k \<Rightarrow> 'a list \<Rightarrow> nat \<Rightarrow> nat \<Rightarrow> nat option" where
  "bsearch_loop cmp key xs l u =
     (if l < u then
        (let idx = (l + u) div 2; c = cmp key (xs ! idx) in
         if c < 0 then bsearch_loop cmp key xs l idx
         else if 0 < c then bsearch_loop cmp key xs (Suc idx) u
         else Some idx)
      else None)"
  by pat_completeness auto
termination
  by (relation "measure (\<lambda>(cmp, key, xs, l, u). u - l)") auto

declare bsearch_loop.simps [simp del]

definition bsearch :: "('k \<Rightarrow> 'a \<Rightarrow> int) \<Rightarrow> 'k \<Rightarrow> 'a list \<Rightarrow> nat option" where
  "bsearch cmp key xs = bsearch_loop cmp key xs 0 (length xs)"

fun qsort_insert :: "('a \<Rightarrow> 'a \<Rightarrow> int) \<Rightarrow> 'a \<Rightarrow> 'a list \<Rightarrow> 'a list" where
  "qsort_insert cmp x [] = [x]"
| "qsort_insert cmp x (y # ys) = (if cmp x y \<le> 0 then x # y # ys else y # qsort_insert cmp x ys)"

primrec qsort :: "('a \<Rightarrow> 'a \<Rightarrow> int) \<Rightarrow> 'a list \<Rightarrow> 'a list" where
  "qsort cmp [] = []"
| "qsort cmp (x # xs) = qsort_insert cmp x (qsort cmp xs)"

section \<open>Results\<close>

named_theorems result_simps "when an operation fails"
named_theorems codec_defs "the encoders and decoders of integers"

lemma rbind_simps [simp]:
  "rbind (Inl e) f = Inl e"
  "rbind (Inr a) f = f a"
  by (simp_all add: rbind_def)

lemma rbind_Inr_iff [simp]: "rbind m f = Inr b \<longleftrightarrow> (\<exists>a. m = Inr a \<and> f a = Inr b)"
  by (cases m) auto

lemma rbind_Inl_iff [result_simps]: "rbind m f = Inl e \<longleftrightarrow> m = Inl e \<or> (\<exists>a. m = Inr a \<and> f a = Inl e)"
  by (cases m) auto

lemma rbind_assoc: "rbind (rbind m f) g = rbind m (\<lambda>a. rbind (f a) g)"
  by (cases m) auto

lemma c_assert_simps [simp]:
  "c_assert True = Inr ()"
  "c_assert False = Inl AssertFailed"
  "c_assert b = Inr u \<longleftrightarrow> b"
  "c_assert b = Inl e \<longleftrightarrow> \<not> b \<and> e = AssertFailed"
  by (auto simp: c_assert_def)

lemma wp_simps [simp]:
  "wp Er (Inl e) Q = Er e"
  "wp Er (Inr a) Q = Q a"
  by (simp_all add: wp_def)

lemma wp_rbind [simp]: "wp Er (rbind m f) Q = wp Er m (\<lambda>a. wp Er (f a) Q)"
  by (cases m) auto

lemma wp_c_assert [simp]: "wp Er (c_assert b) Q = (if b then Q () else Er AssertFailed)"
  by simp

lemma wp_if [simp]: "wp Er (if b then r else r') Q = (if b then wp Er r Q else wp Er r' Q)"
  by simp

lemma wp_mono:
  "wp Er r Q \<Longrightarrow> (\<And>a. Q a \<Longrightarrow> Q' a) \<Longrightarrow> (\<And>e. Er e \<Longrightarrow> Er' e) \<Longrightarrow> wp Er' r Q'"
  by (cases r) auto

lemma wp_conj: "wp Er r (\<lambda>a. Q a \<and> Q' a) \<longleftrightarrow> wp Er r Q \<and> wp Er r Q'"
  by (cases r) auto

lemma wp_InrD: "wp Er r Q \<Longrightarrow> r = Inr a \<Longrightarrow> Q a"
  by simp

lemma wp_InlD: "wp Er r Q \<Longrightarrow> r = Inl e \<Longrightarrow> Er e"
  by simp

lemma wp_no_error: "wp (\<lambda>_. False) r Q \<longleftrightarrow> (\<exists>a. r = Inr a \<and> Q a)"
  by (cases r) auto

lemma wp_for_loop:
  assumes "I s" and "\<And>k t. k \<in> set ks \<Longrightarrow> I t \<Longrightarrow> wp Er (body k t) I"
  shows "wp Er (for_loop body ks s) I"
  using assms
proof (induction ks arbitrary: s)
  case Nil
  then show ?case by simp
next
  case (Cons k ks)
  have "wp Er (body k s) I" using Cons.prems by simp
  then have "wp Er (body k s) (\<lambda>t. wp Er (for_loop body ks t) I)"
    by (rule wp_mono) (simp_all add: Cons.IH Cons.prems(2))
  then show ?case by simp
qed

lemma for_loop_append:
  "for_loop body (ks @ ks') s = rbind (for_loop body ks s) (for_loop body ks')"
proof (induction ks arbitrary: s)
  case (Cons k ks)
  then have "for_loop body (ks @ ks') = (\<lambda>s. rbind (for_loop body ks s) (for_loop body ks'))"
    by blast
  then show ?case by (simp add: rbind_assoc)
qed simp

lemma wp_for_nth:
  assumes "I 0 s" and "\<And>k t. k < length ks \<Longrightarrow> I k t \<Longrightarrow> wp Er (body (ks ! k) t) (I (Suc k))"
  shows "wp Er (for_loop body ks s) (I (length ks))"
  using assms
proof (induction ks rule: rev_induct)
  case (snoc k ks)
  have "wp Er (body (ks ! j) t) (I (Suc j))" if "j < length ks" "I j t" for j t
    using snoc.prems(2) [of j t] that by (simp add: nth_append)
  then have "wp Er (for_loop body ks s) (I (length ks))"
    using snoc.prems(1) by (intro snoc.IH)
  then have "wp Er (for_loop body ks s) (\<lambda>t. wp Er (body k t) (I (Suc (length ks))))"
    by (rule wp_mono) (use snoc.prems(2) [of "length ks"] in auto)
  then show ?case by (simp add: for_loop_append)
qed simp

lemma wp_for_upt:
  assumes "I 0 s" and "\<And>k t. k < n \<Longrightarrow> I k t \<Longrightarrow> wp Er (body k t) (I (Suc k))"
  shows "wp Er (for_loop body [0..<n] s) (I n)"
  using wp_for_nth [of I s "[0..<n]" Er body] assms by simp

lemma for_loop_cong [fundef_cong]:
  "ks = ks' \<Longrightarrow> (\<And>k t. k \<in> set ks' \<Longrightarrow> body k t = body' k t) \<Longrightarrow> s = s' \<Longrightarrow>
   for_loop body ks s = for_loop body' ks' s'"
proof (induction ks arbitrary: ks' s s')
  case Nil
  then show ?case by auto
next
  case (Cons k ks)
  then have ks': "ks' = k # ks" and s': "s' = s" by auto
  have "body k s = body' k s" using Cons.prems(2) ks' by simp
  moreover have "for_loop body ks t = for_loop body' ks t" for t
    using Cons.prems(2) ks' by (intro Cons.IH) auto
  then have "for_loop body ks = for_loop body' ks" by blast
  ultimately show ?case using ks' s' by simp
qed

section \<open>Lists, memory and numbers\<close>

lemma length_memcpy: "memcpy dst src n = Inr r \<Longrightarrow> length r = length dst"
  by (auto simp: memcpy_def split: if_splits)

lemma take_memcpy: "memcpy dst src n = Inr r \<Longrightarrow> take n r = take n src"
  by (auto simp: memcpy_def split: if_splits)

lemma memcpy_ok: "n \<le> length dst \<Longrightarrow> n \<le> length src \<Longrightarrow> memcpy dst src n = Inr (take n src @ drop n dst)"
  by (simp add: memcpy_def)

lemma wp_memcpy:
  "n \<le> length dst \<Longrightarrow> n \<le> length src \<Longrightarrow>
   (\<And>r. length r = length dst \<Longrightarrow> take n r = take n src \<Longrightarrow> Q r) \<Longrightarrow> wp Er (memcpy dst src n) Q"
  by (auto simp: memcpy_def)

lemma map_of_update:
  assumes "distinct (map fst kvs)" "i < length kvs" "fst (kvs ! i) = k"
  shows "map_of (kvs[i := (k, v)]) = (map_of kvs)(k \<mapsto> v)"
  using assms
proof (induction kvs arbitrary: i)
  case (Cons kv kvs)
  show ?case
  proof (cases i)
    case 0
    with Cons.prems show ?thesis by (cases kv) auto
  next
    case (Suc j)
    then have "k \<in> fst ` set kvs" using Cons.prems by force
    then have "fst kv \<noteq> k" using Cons.prems(1) by auto
    with Suc Cons show ?thesis by (cases kv) (auto simp: fun_upd_twist)
  qed
qed simp

lemma length_swap [simp]: "length (swap xs i j) = length xs"
  by (simp add: swap_def)

lemma mset_swap: "i < length xs \<Longrightarrow> j < length xs \<Longrightarrow> mset (swap xs i j) = mset xs"
  by (simp add: swap_def mset_update nth_list_update)

lemma length_be_bytes [simp]: "length (be_bytes n v) = n"
  by (induction n) auto

lemma be_val_Nil [simp]: "be_val [] = 0"
  by (simp add: be_val_def)

lemma be_val_foldl: "foldl (\<lambda>a b. a * 256 + unat b) c (bs :: byte list) = c * 256 ^ length bs + be_val bs"
proof (induction bs arbitrary: c)
  case Nil
  then show ?case by (simp add: be_val_def)
next
  case (Cons b bs)
  show ?case
    using Cons [of "c * 256 + unat b"] Cons [of "unat b"]
    by (simp add: be_val_def algebra_simps)
qed

lemma be_val_Cons [simp]: "be_val (b # bs) = unat b * 256 ^ length bs + be_val bs"
  using be_val_foldl [of "unat b" bs] by (simp add: be_val_def)

lemma be_val_less: "be_val bs < 256 ^ length bs"
proof (induction bs)
  case (Cons b bs)
  have "unat b < 256" using unsigned_less [of b, where 'a = nat] by simp
  then have "unat b * 256 ^ length bs + be_val bs < Suc (unat b) * 256 ^ length bs"
    using Cons by simp
  also have "\<dots> \<le> 256 * 256 ^ length bs"
    using \<open>unat b < 256\<close> by (intro mult_right_mono) auto
  finally show ?case by simp
qed simp

lemma be_val_be_bytes: "be_val (be_bytes n v) = v mod 256 ^ n"
proof (induction n)
  case (Suc n)
  have "unat (word_of_nat (v div 256 ^ n) :: byte) = v div 256 ^ n mod 256"
    by (simp add: unat_of_nat)
  then have "be_val (be_bytes (Suc n) v) = (v div 256 ^ n mod 256) * 256 ^ n + v mod 256 ^ n"
    using Suc by simp
  also have "\<dots> = v mod (256 ^ n * 256)"
    by (simp only: mod_mult2_eq) simp
  finally show ?case by (simp add: mult.commute)
qed simp

lemma be_val_be_bytes_id [simp]: "v < 256 ^ n \<Longrightarrow> be_val (be_bytes n v) = v"
  by (simp add: be_val_be_bytes)

lemma be_bytes_append: "be_bytes (m + n) v = be_bytes m (v div 256 ^ n) @ be_bytes n v"
  by (induction m) (simp_all add: div_mult2_eq [symmetric] power_add mult.commute)

lemma be_bytes_numeral:
  "be_bytes (numeral k) v = word_of_nat (v div 256 ^ pred_numeral k) # be_bytes (pred_numeral k) v"
  using be_bytes.simps(2) [of "pred_numeral k" v] by (simp only: numeral_eq_Suc [of k, symmetric])

lemma be_bytes_mod: "256 ^ n dvd m \<Longrightarrow> be_bytes n (v mod m) = be_bytes n v"
proof (induction n)
  case (Suc n)
  have d: "256 ^ n dvd m" using Suc.prems by (rule dvd_trans [rotated]) simp
  from Suc.prems obtain k where m: "m = 256 ^ n * (256 * k)" by (auto simp: ac_simps)
  have "v mod m div 256 ^ n = v div 256 ^ n mod (256 * k)"
    unfolding m by (simp add: mod_mult2_eq)
  then have "(word_of_nat (v mod m div 256 ^ n) :: byte) = word_of_nat (v div 256 ^ n)"
    by (simp add: word_of_nat_eq_iff take_bit_eq_mod mod_mod_cancel)
  with Suc.IH [OF d] show ?case by simp
qed simp

lemma be_bytes_zero: "v < 256 ^ n \<Longrightarrow> be_bytes m (v div 256 ^ n) = replicate m 0"
  by (induction m) simp_all

lemma to_of_signed:
  assumes "0 < w" "- (2 ^ (w - 1)) \<le> z" "z < 2 ^ (w - 1)"
  shows "to_signed w (of_signed w z) = z"
proof -
  have w2: "(2::int) ^ w = 2 * 2 ^ (w - 1)" using assms(1) by (cases w) auto
  show ?thesis
  proof (cases "0 \<le> z")
    case True
    with assms w2 have "z mod 2 ^ w = z" by simp
    moreover from this True assms(3) have "nat z < 2 ^ (w - 1)" by (simp add: nat_less_iff)
    ultimately show ?thesis using True by (simp add: to_signed_def of_signed_def)
  next
    case False
    have "z mod 2 ^ w = (z + 2 ^ w) mod 2 ^ w" by simp
    also have "\<dots> = z + 2 ^ w" using False assms w2 by (intro mod_pos_pos_trivial) auto
    finally have m: "z mod 2 ^ w = z + 2 ^ w" .
    have "\<not> nat (z + 2 ^ w) < 2 ^ (w - 1)"
      using assms w2 by (simp add: nat_less_iff)
    then show ?thesis
      using m assms w2 by (simp add: to_signed_def of_signed_def)
  qed
qed

lemma of_signed_less: "of_signed w z < 2 ^ w"
  by (simp add: of_signed_def nat_less_iff)

lemma of_signed_nonneg: "0 \<le> z \<Longrightarrow> z < 2 ^ w \<Longrightarrow> of_signed w z = nat z"
  by (simp add: of_signed_def)

lemma to_signed_nonneg: "v < 2 ^ (w - 1) \<Longrightarrow> to_signed w v = int v"
  by (simp add: to_signed_def)

section \<open>What the comparison callback promises\<close>

text \<open>
  The documented contract of \<open>uuid_compare\<close>: zero exactly on equal identifiers, and a
  strict total order by sign. From it, binary search finds exactly the elements that are
  there, and the sort delivers the one strictly ascending arrangement.
\<close>

locale key_compare =
  fixes cmp :: "'k \<Rightarrow> 'k \<Rightarrow> int"
  assumes cmp_eq: "cmp a b = 0 \<longleftrightarrow> a = b"
    and cmp_sym: "0 < cmp a b \<longleftrightarrow> cmp b a < 0"
    and cmp_trans: "cmp a b < 0 \<Longrightarrow> cmp b c < 0 \<Longrightarrow> cmp a c < 0"
begin

lemma cmp_refl [simp]: "cmp a a = 0"
  by (simp add: cmp_eq)

lemma cmp_total: "cmp a b < 0 \<or> a = b \<or> cmp b a < 0"
  using cmp_eq [of a b] cmp_sym [of a b] by (auto simp: not_less order_less_le)

lemma cmp_asym: "cmp a b < 0 \<Longrightarrow> \<not> cmp b a < 0"
  using cmp_trans [of a b a] by auto

lemma cmp_le_iff: "cmp a b \<le> 0 \<longleftrightarrow> cmp a b < 0 \<or> a = b"
  using cmp_eq [of a b] by auto

lemma ascending_nth:
  "sorted_wrt (\<lambda>x y. cmp (kf x) (kf y) < 0) xs \<Longrightarrow> i < length xs \<Longrightarrow> j < length xs \<Longrightarrow>
   cmp (kf (xs ! i)) (kf (xs ! j)) < 0 \<longleftrightarrow> i < j"
proof -
  assume s: "sorted_wrt (\<lambda>x y. cmp (kf x) (kf y) < 0) xs" and i: "i < length xs" and j: "j < length xs"
  have lt: "cmp (kf (xs ! a)) (kf (xs ! b)) < 0" if "a < b" "b < length xs" for a b
    using s that by (simp add: sorted_wrt_iff_nth_less)
  show ?thesis
    using lt [of i j] lt [of j i] i j cmp_asym by (cases i j rule: linorder_cases) auto
qed

lemma ascending_distinct:
  "sorted_wrt (\<lambda>x y. cmp (kf x) (kf y) < 0) xs \<Longrightarrow> distinct (map kf xs)"
  by (induction xs) auto

lemma bsearch_loop_correct:
  assumes "sorted_wrt (\<lambda>x y. cmp (kf x) (kf y) < 0) xs" "u \<le> length xs"
  shows "bsearch_loop (\<lambda>k x. cmp k (kf x)) key xs l u = Some i
         \<longleftrightarrow> l \<le> i \<and> i < u \<and> kf (xs ! i) = key"
  using assms
proof (induction "\<lambda>k x. cmp k (kf x)" key xs l u rule: bsearch_loop.induct)
  case (1 key xs l u)
  let ?c = "\<lambda>k x. cmp k (kf x)"
  note IH = "1.hyps" and asc = "1.prems"(1) and u = "1.prems"(2)
  show ?case
  proof (cases "l < u")
    case False
    then show ?thesis by (simp add: bsearch_loop.simps [of _ _ _ l u])
  next
    case True
    define m where "m = (l + u) div 2"
    have m: "l \<le> m" "m < u" using True by (auto simp: m_def)
    have ord: "cmp (kf (xs ! a)) (kf (xs ! b)) < 0 \<longleftrightarrow> a < b" if "a < u" "b < u" for a b
      using ascending_nth [OF asc, of a b] that u by simp
    consider (less) "cmp key (kf (xs ! m)) < 0" | (greater) "0 < cmp key (kf (xs ! m))"
      | (equal) "kf (xs ! m) = key"
      using cmp_eq [of key "kf (xs ! m)"] by (cases "cmp key (kf (xs ! m))" "0 :: int" rule: linorder_cases) auto
    then show ?thesis
    proof cases
      case less
      have "i < m" if "i < u" "kf (xs ! i) = key"
        using less that ord [of i m] m by simp
      moreover have "bsearch_loop ?c key xs l u = bsearch_loop ?c key xs l m"
        using less True by (simp add: bsearch_loop.simps [of _ _ _ l u] m_def Let_def)
      moreover have "bsearch_loop ?c key xs l m = Some i \<longleftrightarrow> l \<le> i \<and> i < m \<and> kf (xs ! i) = key"
        using IH(1) [OF True m_def refl] less asc m u by simp
      ultimately show ?thesis using m by auto
    next
      case greater
      then have "cmp (kf (xs ! m)) key < 0" using cmp_sym by simp
      then have "m < i" if "i < u" "kf (xs ! i) = key"
        using that ord [of m i] m by simp
      moreover have "bsearch_loop ?c key xs l u = bsearch_loop ?c key xs (Suc m) u"
        using greater True by (simp add: bsearch_loop.simps [of _ _ _ l u] m_def Let_def)
      moreover have "bsearch_loop ?c key xs (Suc m) u = Some i
                     \<longleftrightarrow> Suc m \<le> i \<and> i < u \<and> kf (xs ! i) = key"
        using IH(2) [OF True m_def refl] greater asc m u by simp
      ultimately show ?thesis using m by auto
    next
      case equal
      have "i = m" if "i < u" "kf (xs ! i) = key"
        using that equal ord [of i m] ord [of m i] m by (cases i m rule: linorder_cases) auto
      moreover have "bsearch_loop ?c key xs l u = Some m"
        using equal True by (simp add: bsearch_loop.simps [of _ _ _ l u] m_def Let_def)
      ultimately show ?thesis using equal m by auto
    qed
  qed
qed

lemma bsearch_Some:
  assumes "sorted_wrt (\<lambda>x y. cmp (kf x) (kf y) < 0) xs"
  shows "bsearch (\<lambda>k x. cmp k (kf x)) key xs = Some i \<longleftrightarrow> i < length xs \<and> kf (xs ! i) = key"
  using bsearch_loop_correct [OF assms, of "length xs" key 0 i] by (simp add: bsearch_def)

lemma bsearch_None:
  assumes "sorted_wrt (\<lambda>x y. cmp (kf x) (kf y) < 0) xs"
  shows "bsearch (\<lambda>k x. cmp k (kf x)) key xs = None \<longleftrightarrow> key \<notin> kf ` set xs"
proof (cases "bsearch (\<lambda>k x. cmp k (kf x)) key xs")
  case None
  then have "\<not> (i < length xs \<and> kf (xs ! i) = key)" for i
    using bsearch_Some [OF assms, of key i] by simp
  then have "key \<notin> kf ` set xs" by (metis image_iff in_set_conv_nth)
  with None show ?thesis by simp
next
  case (Some i)
  then have "i < length xs" "kf (xs ! i) = key"
    using bsearch_Some [OF assms, of key i] by auto
  then have "key \<in> kf ` set xs" using nth_mem by blast
  with Some show ?thesis by simp
qed

end

lemma mset_qsort_insert: "mset (qsort_insert cmp x xs) = add_mset x (mset xs)"
  by (induction xs) auto

lemma mset_qsort [simp]: "mset (qsort cmp xs) = mset xs"
  by (induction xs) (auto simp: mset_qsort_insert)

lemma set_qsort [simp]: "set (qsort cmp xs) = set xs"
  by (rule mset_eq_setD) simp

lemma length_qsort [simp]: "length (qsort cmp xs) = length xs"
  by (rule mset_eq_length) simp

context key_compare
begin

lemma sorted_qsort_insert:
  assumes "sorted_wrt (\<lambda>x y. cmp (kf x) (kf y) < 0) xs" "kf x \<notin> kf ` set xs"
  shows "sorted_wrt (\<lambda>x y. cmp (kf x) (kf y) < 0) (qsort_insert (\<lambda>a b. cmp (kf a) (kf b)) x xs)"
  using assms
proof (induction xs)
  case (Cons y ys)
  have set: "set (qsort_insert c z zs) = insert z (set zs)" for c and z :: 'b and zs
    by (metis mset_qsort_insert set_mset_add_mset_insert set_mset_mset)
  show ?case
    using Cons cmp_total [of "kf x" "kf y"] cmp_le_iff
    by (auto simp: set intro: cmp_trans)
qed simp

lemma sorted_qsort:
  assumes "distinct (map kf xs)"
  shows "sorted_wrt (\<lambda>x y. cmp (kf x) (kf y) < 0) (qsort (\<lambda>a b. cmp (kf a) (kf b)) xs)"
  using assms by (induction xs) (auto intro!: sorted_qsort_insert)

lemma ascending_unique:
  assumes "sorted_wrt (\<lambda>x y. cmp (kf x) (kf y) < 0) xs"
    and "sorted_wrt (\<lambda>x y. cmp (kf x) (kf y) < 0) ys" and "mset xs = mset ys"
  shows "xs = ys"
  using assms
proof (induction xs arbitrary: ys)
  case (Cons x xs)
  then obtain y ys' where ys: "ys = y # ys'" by (cases ys) auto
  have "x \<in> set ys" "y \<in> set (x # xs)"
    using Cons.prems(3) ys by (metis list.set_intros(1) mset_eq_setD)+
  then have "x = y" using Cons.prems(1,2) ys cmp_asym by auto
  with Cons ys show ?case by auto
qed simp

end

end
