(* ===== verification/Swim_Node.thy ===== *)
theory Swim_Node
  imports Swim_Prelude
begin

text \<open>
  The node data of \<open>swim/node.h\<close> and its operations of \<open>swim/node.c\<close>.

  An object of the enum type \<open>Status\<close> can hold values other than the four enumerators
  (\<open>swim_decode_info\<close> stores any 16-bit value in it), so the datatype has a fifth
  constructor: \<open>SWIM_STATUS_OTHER k\<close> is the value \<open>4 + k\<close>. The C comparison of two
  statuses is the comparison of their values; it is the linear order of the datatype.

  A \<open>struct sockaddr_storage\<close> is a list of \<open>SIZEOF_STORAGE\<close> bytes, of which the
  accompanying length says how many are in use.
\<close>

section \<open>Data\<close>

datatype Status =
    SWIM_STATUS_UNKNOWN
  | SWIM_STATUS_ALIVE
  | SWIM_STATUS_SUSPECT
  | SWIM_STATUS_DEAD
  | SWIM_STATUS_OTHER nat

fun status_code :: "Status \<Rightarrow> nat" where
  "status_code SWIM_STATUS_UNKNOWN = 0"
| "status_code SWIM_STATUS_ALIVE = 1"
| "status_code SWIM_STATUS_SUSPECT = 2"
| "status_code SWIM_STATUS_DEAD = 3"
| "status_code (SWIM_STATUS_OTHER k) = 4 + k"

definition status_of_code :: "nat \<Rightarrow> Status" where
  "status_of_code n =
     (if n = 0 then SWIM_STATUS_UNKNOWN else if n = 1 then SWIM_STATUS_ALIVE
      else if n = 2 then SWIM_STATUS_SUSPECT else if n = 3 then SWIM_STATUS_DEAD
      else SWIM_STATUS_OTHER (n - 4))"

abbreviation SIZEOF_STORAGE :: nat where
  "SIZEOF_STORAGE \<equiv> 128"

record NodeInfo =
  n_uuid :: uuid
  n_last_seen :: time_t
  n_incarnation :: "32 word"
  n_status :: Status
  n_addr :: "byte list"
  n_addrlen :: nat

record NodeState =
  info :: NodeInfo
  ping_time :: time_t
  suspect_time :: time_t
  w_addr :: "byte list"
  w_addrlen :: nat

text \<open>Objects filled with zero bytes (\<open>memset\<close>, \<open>calloc\<close>).\<close>

definition zero_storage :: "byte list" where
  "zero_storage = replicate SIZEOF_STORAGE 0"

definition zero_info :: NodeInfo where
  "zero_info = \<lparr>n_uuid = 0, n_last_seen = 0, n_incarnation = 0, n_status = SWIM_STATUS_UNKNOWN,
                n_addr = zero_storage, n_addrlen = 0\<rparr>"

definition zero_node :: NodeState where
  "zero_node = \<lparr>info = zero_info, ping_time = 0, suspect_time = 0,
                w_addr = zero_storage, w_addrlen = 0\<rparr>"

abbreviation node_uuid :: "NodeState \<Rightarrow> uuid" where
  "node_uuid nd \<equiv> n_uuid (info nd)"

abbreviation node_status :: "NodeState \<Rightarrow> Status" where
  "node_status nd \<equiv> n_status (info nd)"

section \<open>Operations\<close>

definition swim_node_init :: "uuid \<Rightarrow> byte list \<Rightarrow> nat \<Rightarrow> NodeInfo result" where
  "swim_node_init u addr addrlen =
     (let ni = zero_info\<lparr>n_addrlen := addrlen\<rparr> in
      rbind (memcpy (n_addr ni) addr addrlen) (\<lambda>a.
      Inr (ni\<lparr>n_addr := a, n_uuid := u\<rparr>)))"

definition swim_node_copy :: "NodeInfo \<Rightarrow> NodeInfo \<Rightarrow> NodeInfo result" where
  "swim_node_copy dst src =
     (let dst = dst\<lparr>n_addrlen := n_addrlen src, n_status := n_status src,
                    n_incarnation := n_incarnation src, n_last_seen := n_last_seen src,
                    n_uuid := n_uuid src\<rparr> in
      rbind (memcpy (n_addr dst) (n_addr src) (n_addrlen src)) (\<lambda>a.
      Inr (dst\<lparr>n_addr := a\<rparr>)))"

definition swim_node_has_witness :: "NodeState \<Rightarrow> bool" where
  "swim_node_has_witness nd \<longleftrightarrow> 0 < w_addrlen nd"

definition swim_node_reset :: "NodeState \<Rightarrow> NodeState" where
  "swim_node_reset nd =
     nd\<lparr>ping_time := 0, suspect_time := 0, w_addr := zero_storage, w_addrlen := 0\<rparr>"

definition swim_node_reset_witness :: "NodeState \<Rightarrow> NodeState" where
  "swim_node_reset_witness nd = nd\<lparr>w_addr := zero_storage, w_addrlen := 0\<rparr>"

text \<open>The address of a node is a well-formed socket address object.\<close>

definition wf_info :: "NodeInfo \<Rightarrow> bool" where
  "wf_info ni \<longleftrightarrow> length (n_addr ni) = SIZEOF_STORAGE \<and> n_addrlen ni \<le> SIZEOF_STORAGE"

definition wf_node :: "NodeState \<Rightarrow> bool" where
  "wf_node nd \<longleftrightarrow> wf_info (info nd) \<and> length (w_addr nd) = SIZEOF_STORAGE"

text \<open>What \<open>swim_state_notice\<close> and \<open>swim_process_gossip\<close> assert of a node.\<close>

definition seen_info :: "NodeInfo \<Rightarrow> bool" where
  "seen_info ni \<longleftrightarrow> 0 < n_last_seen ni \<and> n_status ni \<noteq> SWIM_STATUS_UNKNOWN"

text \<open>Two node records that tell the receiver the same: every field but the unused tail of
  the address object.\<close>

definition same_info :: "NodeInfo \<Rightarrow> NodeInfo \<Rightarrow> bool" where
  "same_info a b \<longleftrightarrow>
     n_uuid a = n_uuid b \<and> n_last_seen a = n_last_seen b \<and> n_incarnation a = n_incarnation b \<and>
     n_status a = n_status b \<and> n_addrlen a = n_addrlen b \<and>
     take (n_addrlen a) (n_addr a) = take (n_addrlen b) (n_addr b)"

section \<open>The order of statuses\<close>

lemma status_of_code_status_code [simp]: "status_of_code (status_code st) = st"
  by (cases st) (auto simp: status_of_code_def)

lemma status_code_status_of_code [simp]: "status_code (status_of_code n) = n"
  by (auto simp: status_of_code_def)

lemma status_code_inject [simp]: "status_code a = status_code b \<longleftrightarrow> a = b"
  by (metis status_of_code_status_code)

instantiation Status :: linorder
begin

definition less_eq_Status :: "Status \<Rightarrow> Status \<Rightarrow> bool" where
  "less_eq_Status a b \<longleftrightarrow> status_code a \<le> status_code b"

definition less_Status :: "Status \<Rightarrow> Status \<Rightarrow> bool" where
  "less_Status a b \<longleftrightarrow> status_code a < status_code b"

instance
  by standard (auto simp: less_eq_Status_def less_Status_def)

end

lemmas status_order = less_eq_Status_def less_Status_def

section \<open>Lemmas\<close>

lemma length_zero_storage [simp]: "length zero_storage = SIZEOF_STORAGE"
  by (simp add: zero_storage_def)

lemma wf_zero [simp]: "wf_info zero_info" "wf_node zero_node"
  by (simp_all add: wf_info_def wf_node_def zero_info_def zero_node_def)

lemma wf_node_info [simp]: "wf_node nd \<Longrightarrow> wf_info (info nd)"
  by (simp add: wf_node_def)

lemma same_info_refl [simp]: "same_info a a"
  by (simp add: same_info_def)

lemma same_info_trans: "same_info a b \<Longrightarrow> same_info b c \<Longrightarrow> same_info a c"
  by (auto simp: same_info_def)

lemma swim_node_reset_simps [simp]:
  "info (swim_node_reset nd) = info nd"
  "info (swim_node_reset_witness nd) = info nd"
  "\<not> swim_node_has_witness (swim_node_reset nd)"
  "\<not> swim_node_has_witness (swim_node_reset_witness nd)"
  "wf_node (swim_node_reset nd) = wf_info (info nd)"
  "wf_node (swim_node_reset_witness nd) = wf_info (info nd)"
  by (simp_all add: swim_node_reset_def swim_node_reset_witness_def swim_node_has_witness_def wf_node_def)

lemma wp_swim_node_init:
  assumes "addrlen \<le> SIZEOF_STORAGE" "addrlen \<le> length addr"
    and "\<And>ni. wf_info ni \<Longrightarrow> n_uuid ni = u \<Longrightarrow> n_status ni = SWIM_STATUS_UNKNOWN \<Longrightarrow>
           n_incarnation ni = 0 \<Longrightarrow> n_last_seen ni = 0 \<Longrightarrow> n_addrlen ni = addrlen \<Longrightarrow>
           take addrlen (n_addr ni) = take addrlen addr \<Longrightarrow> Q ni"
  shows "wp Er (swim_node_init u addr addrlen) Q"
  using assms by (auto simp: swim_node_init_def zero_info_def wf_info_def Let_def memcpy_ok)

lemma swim_node_copy_ok:
  assumes "wf_info src" "length (n_addr dst) = SIZEOF_STORAGE"
  shows "\<exists>r. swim_node_copy dst src = Inr r \<and> wf_info r \<and> same_info r src"
  using assms by (auto simp: swim_node_copy_def wf_info_def same_info_def Let_def memcpy_ok)

lemma wp_swim_node_copy:
  assumes "wf_info src" "length (n_addr dst) = SIZEOF_STORAGE"
    and "\<And>r. wf_info r \<Longrightarrow> same_info r src \<Longrightarrow> Q r"
  shows "wp Er (swim_node_copy dst src) Q"
  using swim_node_copy_ok [OF assms(1,2)] assms(3) by auto

lemma same_info_seen: "same_info a b \<Longrightarrow> seen_info a = seen_info b"
  by (simp add: same_info_def seen_info_def)

end
