(* ===== verification/Swim_State.thy ===== *)
theory Swim_State
  imports Swim_Node
begin

text \<open>
  The server state of \<open>swim/state.h\<close> and the membership view of \<open>swim/state.c\<close>.

  \<open>SWIM\<close> is the struct of the same name; \<open>view\<close> is the whole allocated array, of which the
  first \<open>view_size\<close> elements (\<open>nodes\<close>) are in use, so a pointer into the array is an index
  and what a pointer denotes after the array has been sorted is visible in the model.

  \<open>Ext\<close> collects what the program takes from outside the repository: \<open>uuid_compare\<close> and
  \<open>uuid_generate\<close> of libuuid, and the answers of the C library and the system to the calls
  the code makes. The answer to the \<open>k\<close>-th call of \<open>rand\<close>, \<open>time\<close>, of an allocation and of
  \<open>sendto\<close> is a function of \<open>k\<close>; the \<open>World\<close> counts the calls and records what was sent.
  \<open>x_fresh\<close> is what the memory added by \<open>realloc\<close> happens to hold.
\<close>

section \<open>Data\<close>

record ProbeSchedule =
  p_order :: "nat list"
  p_pos :: nat
  p_size :: nat

record SockaddrIn =
  sin_family :: nat
  sin_s_addr :: "32 word"
  sin_port :: "16 word"

record SWIM =
  sockfd :: int
  last_heartbeat :: time_t
  s_addr :: SockaddrIn
  s_uuid :: uuid
  s_incarnation :: "32 word"
  view_capacity :: nat
  view_size :: nat
  view :: "NodeState list"
  probe :: ProbeSchedule

record Ext =
  x_uuid_compare :: "uuid \<Rightarrow> uuid \<Rightarrow> int"
  x_uuid_generate :: uuid
  x_socket :: int
  x_setsockopt :: int
  x_bind :: int
  x_rand :: "nat \<Rightarrow> nat"
  x_time :: "nat \<Rightarrow> time_t"
  x_alloc :: "nat \<Rightarrow> bool"
  x_fresh :: "nat \<Rightarrow> nat \<Rightarrow> NodeState"
  x_sendto :: "nat \<Rightarrow> int"
  x_little_endian :: bool

record Datagram =
  d_bytes :: "byte list"
  d_addr :: "byte list"

record World =
  w_swim :: SWIM
  w_rand :: nat
  w_time :: nat
  w_alloc :: nat
  w_sent :: "Datagram list"

definition zero_swim :: SWIM where
  "zero_swim =
     \<lparr>sockfd = 0, last_heartbeat = 0, s_addr = \<lparr>sin_family = 0, sin_s_addr = 0, sin_port = 0\<rparr>,
      s_uuid = 0, s_incarnation = 0, view_capacity = 0, view_size = 0, view = [],
      probe = \<lparr>p_order = [], p_pos = 0, p_size = 0\<rparr>\<rparr>"

abbreviation nodes :: "SWIM \<Rightarrow> NodeState list" where
  "nodes s \<equiv> take (view_size s) (view s)"

abbreviation AF_INET :: nat where
  "AF_INET \<equiv> 2"

section \<open>Calls to the outside\<close>

definition c_rand :: "Ext \<Rightarrow> World \<Rightarrow> nat \<times> World" where
  "c_rand E w = (x_rand E (w_rand w), w\<lparr>w_rand := Suc (w_rand w)\<rparr>)"

definition c_time :: "Ext \<Rightarrow> World \<Rightarrow> time_t \<times> World" where
  "c_time E w = (x_time E (w_time w), w\<lparr>w_time := Suc (w_time w)\<rparr>)"

definition c_alloc :: "Ext \<Rightarrow> World \<Rightarrow> bool \<times> World" where
  "c_alloc E w = (x_alloc E (w_alloc w), w\<lparr>w_alloc := Suc (w_alloc w)\<rparr>)"

section \<open>Operations on the view\<close>

definition swim_status_name :: "Status \<Rightarrow> string result" where
  "swim_status_name st =
     (case st of SWIM_STATUS_UNKNOWN \<Rightarrow> Inr ''UNKNOWN'' | SWIM_STATUS_ALIVE \<Rightarrow> Inr ''ALIVE''
      | SWIM_STATUS_SUSPECT \<Rightarrow> Inr ''SUSPECT'' | SWIM_STATUS_DEAD \<Rightarrow> Inr ''DEAD''
      | SWIM_STATUS_OTHER _ \<Rightarrow> Inl OutOfBounds)"

definition node_compare :: "Ext \<Rightarrow> uuid \<Rightarrow> NodeState \<Rightarrow> int" where
  "node_compare E key nd = x_uuid_compare E key (n_uuid (info nd))"

text \<open>The second component of the result is what the system keeps for the socket: its receive timeout in seconds, zero
  (no timeout) for a new socket, and the value of \<open>SO_RCVTIMEO\<close> once that is set.\<close>

definition swim_state_init :: "Ext \<Rightarrow> 16 word \<Rightarrow> World \<Rightarrow> bool \<times> nat \<times> World" where
  "swim_state_init E port w =
     (let w = w\<lparr>w_swim := zero_swim\<rparr> in
      if x_socket E < 0 then (False, 0, w)
      else if x_setsockopt E < 0 then (False, 0, w)
      else
        let timeout = 10;
            w = w\<lparr>w_swim := (w_swim w)\<lparr>s_addr :=
                   \<lparr>sin_family = AF_INET, sin_s_addr = 0, sin_port = c_htons (x_little_endian E) port\<rparr>\<rparr>\<rparr> in
        if x_bind E < 0 then (False, timeout, w)
        else
          let (ok, w) = c_alloc E w;
              w = w\<lparr>w_swim := (w_swim w)\<lparr>view_capacity := 32,
                     view := (if ok then replicate 32 zero_node else []),
                     sockfd := x_socket E\<rparr>\<rparr>;
              (t, w) = c_time E w
          in (True, timeout, w\<lparr>w_swim := (w_swim w)\<lparr>last_heartbeat := t, s_uuid := x_uuid_generate E\<rparr>\<rparr>))"

definition swim_state_get_node :: "Ext \<Rightarrow> SWIM \<Rightarrow> uuid \<Rightarrow> nat option" where
  "swim_state_get_node E s u = bsearch (node_compare E) u (nodes s)"

definition upd_node :: "nat \<Rightarrow> (NodeState \<Rightarrow> NodeState) \<Rightarrow> SWIM \<Rightarrow> SWIM" where
  "upd_node i f s = s\<lparr>view := (view s)[i := f (view s ! i)]\<rparr>"

definition swim_state_suspect ::
  "Ext \<Rightarrow> uuid \<Rightarrow> byte list \<Rightarrow> nat \<Rightarrow> SWIM \<Rightarrow> (nat option \<times> SWIM) result" where
  "swim_state_suspect E u addr addrlen s =
     (case swim_state_get_node E s u of
        None \<Rightarrow> Inr (None, s)
      | Some i \<Rightarrow>
          let s = upd_node i (\<lambda>nd. nd\<lparr>info := (info nd)\<lparr>n_status := SWIM_STATUS_SUSPECT\<rparr>,
                                      w_addrlen := addrlen\<rparr>) s in
          rbind (memcpy (w_addr (view s ! i)) addr addrlen) (\<lambda>a.
          Inr (Some i, upd_node i (\<lambda>nd. nd\<lparr>w_addr := a\<rparr>) s)))"

definition notice_info :: "time_t \<Rightarrow> 32 word \<Rightarrow> NodeInfo \<Rightarrow> NodeInfo" where
  "notice_info t inc ni =
     (if n_incarnation ni < inc then
        ni\<lparr>n_incarnation := inc, n_status := SWIM_STATUS_ALIVE, n_last_seen := t\<rparr>
      else if inc = n_incarnation ni then
        (case n_status ni of
           SWIM_STATUS_UNKNOWN \<Rightarrow> ni\<lparr>n_status := SWIM_STATUS_ALIVE, n_last_seen := t\<rparr>
         | SWIM_STATUS_SUSPECT \<Rightarrow> ni\<lparr>n_status := SWIM_STATUS_ALIVE, n_last_seen := t\<rparr>
         | SWIM_STATUS_ALIVE \<Rightarrow> ni\<lparr>n_last_seen := t\<rparr>
         | SWIM_STATUS_DEAD \<Rightarrow> ni
         | SWIM_STATUS_OTHER _ \<Rightarrow> ni)
      else ni)"

definition swim_state_notice ::
  "Ext \<Rightarrow> uuid \<Rightarrow> time_t \<Rightarrow> 32 word \<Rightarrow> SWIM \<Rightarrow> (nat option \<times> SWIM) result" where
  "swim_state_notice E u t inc s =
     (case swim_state_get_node E s u of
        None \<Rightarrow> Inr (None, s)
      | Some i \<Rightarrow>
          let ni = info (view s ! i) in
          rbind (c_assert (0 < n_last_seen ni \<and> n_status ni \<noteq> SWIM_STATUS_UNKNOWN)) (\<lambda>_.
          Inr (Some i, upd_node i (\<lambda>nd. nd\<lparr>info := notice_info t inc ni\<rparr>) s)))"

definition swim_probe_invalidate :: "SWIM \<Rightarrow> SWIM" where
  "swim_probe_invalidate s = s\<lparr>probe := (probe s)\<lparr>p_size := 0\<rparr>\<rparr>"

definition swim_view_grow :: "Ext \<Rightarrow> World \<Rightarrow> (bool \<times> World) result" where
  "swim_view_grow E w =
     (let s = w_swim w; k = w_alloc w in
      if view_capacity s \<le> view_size s then
        let (ok, w) = c_alloc E w in
        if INT_MAX < 2 * view_capacity s then Inl SignedOverflow
        else if \<not> ok then Inr (False, w)
        else Inr (True, w\<lparr>w_swim := s\<lparr>
               view := view s @ map (x_fresh E k) [length (view s)..<2 * view_capacity s],
               view_capacity := 2 * view_capacity s\<rparr>\<rparr>)
      else Inr (True, w))"

definition swim_view_insert :: "Ext \<Rightarrow> NodeInfo \<Rightarrow> SWIM \<Rightarrow> (nat \<times> SWIM) result" where
  "swim_view_insert E ni s =
     (let i = view_size s in
      if length (view s) \<le> i then Inl OutOfBounds
      else
        let s = (upd_node i (\<lambda>nd. nd\<lparr>info := ni\<rparr>) s)\<lparr>view_size := Suc i\<rparr>;
            s = s\<lparr>view := qsort (\<lambda>a b. node_compare E (node_uuid a) b) (nodes s)
                           @ drop (view_size s) (view s)\<rparr>
        in Inr (i, swim_probe_invalidate s))"

definition swim_state_add :: "Ext \<Rightarrow> NodeInfo \<Rightarrow> World \<Rightarrow> (nat option \<times> World) result" where
  "swim_state_add E ni w =
     rbind (c_assert (x_uuid_compare E (n_uuid ni) (s_uuid (w_swim w)) \<noteq> 0)) (\<lambda>_.
     rbind (c_assert (swim_state_get_node E (w_swim w) (n_uuid ni) = None)) (\<lambda>_.
     rbind (swim_view_grow E w) (\<lambda>(grown, w).
     if \<not> grown then Inr (None, w)
     else
       rbind (swim_view_insert E ni (w_swim w)) (\<lambda>(i, s).
       Inr (Some i, w\<lparr>w_swim := s\<rparr>)))))"

definition merge_node :: "NodeInfo \<Rightarrow> NodeState \<Rightarrow> NodeState" where
  "merge_node ni nd =
     (if n_incarnation (info nd) < n_incarnation ni then
        swim_node_reset (nd\<lparr>info := (info nd)\<lparr>n_incarnation := n_incarnation ni,
                              n_last_seen := n_last_seen ni, n_status := n_status ni\<rparr>\<rparr>)
      else if n_incarnation ni = n_incarnation (info nd) then
        (if node_status nd = SWIM_STATUS_ALIVE \<or> node_status nd = SWIM_STATUS_SUSPECT then
           (if node_status nd < n_status ni then
              swim_node_reset (nd\<lparr>info := (info nd)\<lparr>n_status := n_status ni,
                                    n_last_seen := n_last_seen ni\<rparr>\<rparr>)
            else if n_status ni = node_status nd \<and> n_last_seen (info nd) < n_last_seen ni then
              nd\<lparr>info := (info nd)\<lparr>n_last_seen := n_last_seen ni\<rparr>\<rparr>
            else nd)
         else if node_status nd = SWIM_STATUS_DEAD \<or> node_status nd = SWIM_STATUS_UNKNOWN then
           swim_node_reset nd
         else nd)
      else nd)"

definition swim_state_merge :: "Ext \<Rightarrow> NodeInfo \<Rightarrow> World \<Rightarrow> World result" where
  "swim_state_merge E ni w =
     (if x_uuid_compare E (n_uuid ni) (s_uuid (w_swim w)) = 0 then Inr w
      else
        (case swim_state_get_node E (w_swim w) (n_uuid ni) of
           None \<Rightarrow> rbind (swim_state_add E ni w) (\<lambda>(_, w). Inr w)
         | Some i \<Rightarrow> Inr (w\<lparr>w_swim := upd_node i (merge_node ni) (w_swim w)\<rparr>)))"

definition swim_state_del :: "Ext \<Rightarrow> uuid \<Rightarrow> SWIM \<Rightarrow> nat option \<times> SWIM" where
  "swim_state_del E u s =
     (if x_uuid_compare E u (s_uuid s) = 0 then (None, s)
      else
        (case swim_state_get_node E s u of
           None \<Rightarrow> (None, s)
         | Some i \<Rightarrow> (Some i, swim_probe_invalidate
             (upd_node i (\<lambda>nd. nd\<lparr>info := (info nd)\<lparr>n_status := SWIM_STATUS_DEAD\<rparr>\<rparr>) s))))"

section \<open>Abstract membership\<close>

text \<open>
  The contract of the view: a finite map from identifiers to node records. \<open>members\<close>
  abstracts the sorted array; \<open>merge_info\<close> and \<open>spec_merge\<close> say what merging one gossip
  record does to that map, without array, pointers, capacity or witness bookkeeping.
\<close>

definition members :: "SWIM \<Rightarrow> uuid \<rightharpoonup> NodeInfo" where
  "members s = map_of (map (\<lambda>nd. (node_uuid nd, info nd)) (nodes s))"

definition merge_info :: "NodeInfo \<Rightarrow> NodeInfo \<Rightarrow> NodeInfo" where
  "merge_info new old =
     (if n_incarnation old < n_incarnation new then
        old\<lparr>n_incarnation := n_incarnation new, n_last_seen := n_last_seen new, n_status := n_status new\<rparr>
      else if n_incarnation new = n_incarnation old \<and> n_status old \<in> {SWIM_STATUS_ALIVE, SWIM_STATUS_SUSPECT} then
        (if n_status old < n_status new then
           old\<lparr>n_status := n_status new, n_last_seen := n_last_seen new\<rparr>
         else if n_status new = n_status old then
           old\<lparr>n_last_seen := max (n_last_seen old) (n_last_seen new)\<rparr>
         else old)
      else old)"

definition spec_merge :: "uuid \<Rightarrow> NodeInfo \<Rightarrow> (uuid \<rightharpoonup> NodeInfo) \<Rightarrow> (uuid \<rightharpoonup> NodeInfo)" where
  "spec_merge self ni m =
     (if n_uuid ni = self then m
      else m(n_uuid ni \<mapsto> (case m (n_uuid ni) of None \<Rightarrow> ni | Some old \<Rightarrow> merge_info ni old)))"

section \<open>The representation invariant\<close>

definition wf_probe :: "SWIM \<Rightarrow> bool" where
  "wf_probe s \<longleftrightarrow> p_size (probe s) = 0 \<or>
     (p_size (probe s) = view_size s \<and> mset (p_order (probe s)) = mset [0..<view_size s])"

definition ascending :: "Ext \<Rightarrow> NodeState list \<Rightarrow> bool" where
  "ascending E = sorted_wrt (\<lambda>x y. x_uuid_compare E (node_uuid x) (node_uuid y) < 0)"

definition wf_swim :: "Ext \<Rightarrow> SWIM \<Rightarrow> bool" where
  "wf_swim E s \<longleftrightarrow>
     0 < view_capacity s \<and> length (view s) = view_capacity s \<and> view_size s \<le> view_capacity s \<and>
     ascending E (nodes s) \<and> s_uuid s \<notin> node_uuid ` set (nodes s) \<and>
     (\<forall>nd \<in> set (nodes s). wf_node nd) \<and>
     (\<forall>nd \<in> set (view s). length (w_addr nd) = SIZEOF_STORAGE) \<and>
     wf_probe s"

lemma wf_swimD:
  assumes "wf_swim E s"
  shows "0 < view_capacity s" "length (view s) = view_capacity s" "view_size s \<le> length (view s)"
    "ascending E (nodes s)" "s_uuid s \<notin> node_uuid ` set (nodes s)"
    "\<And>nd. nd \<in> set (nodes s) \<Longrightarrow> wf_node nd"
    "\<And>nd. nd \<in> set (view s) \<Longrightarrow> length (w_addr nd) = SIZEOF_STORAGE" "wf_probe s"
  using assms by (auto simp: wf_swim_def)

lemma wf_swim_nth: "wf_swim E s \<Longrightarrow> i < view_size s \<Longrightarrow> wf_node (view s ! i) \<and> view s ! i \<in> set (nodes s)"
  using nth_mem [of i "nodes s"] wf_swimD(3,6) [of E s] by simp

lemma nodes_upd_node:
  "i < n \<Longrightarrow> take n (view (upd_node i f s)) = (take n (view s))[i := f (view s ! i)]"
  by (simp add: upd_node_def take_update_swap)

lemma upd_node_simps [simp]:
  "view_size (upd_node i f s) = view_size s"
  "view_capacity (upd_node i f s) = view_capacity s"
  "length (view (upd_node i f s)) = length (view s)"
  "s_uuid (upd_node i f s) = s_uuid s"
  "s_incarnation (upd_node i f s) = s_incarnation s"
  "probe (upd_node i f s) = probe s"
  "last_heartbeat (upd_node i f s) = last_heartbeat s"
  "i < length (view s) \<Longrightarrow> view (upd_node i f s) ! i = f (view s ! i)"
  "i \<noteq> j \<Longrightarrow> view (upd_node i f s) ! j = view s ! j"
  by (simp_all add: upd_node_def)

lemma upd_node_upd_node [simp]:
  "i < length (view s) \<Longrightarrow> upd_node i g (upd_node i f s) = upd_node i (\<lambda>nd. g (f nd)) s"
  by (simp add: upd_node_def)

lemma ascending_upd:
  assumes "ascending E xs" "i < length xs" "node_uuid nd = node_uuid (xs ! i)"
  shows "ascending E (xs[i := nd])"
  using assms by (auto simp: ascending_def sorted_wrt_iff_nth_less nth_list_update)

lemma wf_upd_node:
  assumes wf: "wf_swim E s" and i: "i < view_size s"
    and f: "node_uuid (f (view s ! i)) = node_uuid (view s ! i)" "wf_node (f (view s ! i))"
  shows "wf_swim E (upd_node i f s)"
proof -
  have il: "i < length (view s)" using wf_swimD(3) [OF wf] i by simp
  let ?N = "take (view_size s) (view (upd_node i f s))"
  have nds: "?N = (nodes s)[i := f (view s ! i)]"
    using i by (simp add: nodes_upd_node)
  have ids: "map node_uuid ?N = map node_uuid (nodes s)"
    using f(1) i il by (simp add: nds map_update list_update_same_conv)
  have "node_uuid ` set ?N = node_uuid ` set (nodes s)"
    using ids by (metis list.set_map)
  moreover have "ascending E ?N"
    unfolding nds using ascending_upd wf_swimD(4) [OF wf] i il f(1) by simp
  moreover have "\<forall>nd \<in> set ?N. wf_node nd"
    unfolding nds using wf_swimD(6) [OF wf] f(2) set_update_subset_insert by fastforce
  moreover have "\<forall>nd \<in> set (view (upd_node i f s)). length (w_addr nd) = SIZEOF_STORAGE"
    using wf_swimD(7) [OF wf] f(2) set_update_subset_insert
    by (fastforce simp: upd_node_def wf_node_def)
  ultimately show ?thesis
    using wf by (simp add: wf_swim_def wf_probe_def)
qed

lemma wf_swim_probe_invalidate [simp]:
  "wf_swim E s \<Longrightarrow> wf_swim E (swim_probe_invalidate s)"
  by (simp add: wf_swim_def swim_probe_invalidate_def wf_probe_def)

lemma swim_probe_invalidate_simps [simp]:
  "view_size (swim_probe_invalidate s) = view_size s"
  "view (swim_probe_invalidate s) = view s"
  "s_uuid (swim_probe_invalidate s) = s_uuid s"
  "members (swim_probe_invalidate s) = members s"
  by (simp_all add: swim_probe_invalidate_def members_def)

section \<open>The environment, and the view as a map\<close>

text \<open>
  What the code relies on outside the repository: \<open>uuid_compare\<close> orders identifiers, and the
  memory an allocation hands out has the size that was asked for.
\<close>

locale swim_env =
  fixes E :: Ext
  assumes compare: "key_compare (x_uuid_compare E)"
    and fresh: "length (w_addr (x_fresh E k j)) = SIZEOF_STORAGE"

sublocale swim_env \<subseteq> uc: key_compare "x_uuid_compare E"
  by (rule compare)

context swim_env
begin

lemma get_node_Some:
  assumes "wf_swim E s"
  shows "swim_state_get_node E s u = Some i \<longleftrightarrow> i < view_size s \<and> node_uuid (view s ! i) = u"
proof -
  have "node_compare E = (\<lambda>k nd. x_uuid_compare E k (node_uuid nd))"
    by (simp add: node_compare_def fun_eq_iff)
  then show ?thesis
    using uc.bsearch_Some [of node_uuid "nodes s" u i] wf_swimD(3,4) [OF assms]
    by (auto simp: swim_state_get_node_def ascending_def)
qed

lemma get_node_None:
  assumes "wf_swim E s"
  shows "swim_state_get_node E s u = None \<longleftrightarrow> u \<notin> node_uuid ` set (nodes s)"
proof -
  have "node_compare E = (\<lambda>k nd. x_uuid_compare E k (node_uuid nd))"
    by (simp add: node_compare_def fun_eq_iff)
  then show ?thesis
    using uc.bsearch_None [of node_uuid "nodes s" u] wf_swimD(4) [OF assms]
    by (auto simp: swim_state_get_node_def ascending_def)
qed

lemma distinct_uuids: "wf_swim E s \<Longrightarrow> distinct (map node_uuid (nodes s))"
  using uc.ascending_distinct [of node_uuid] wf_swimD(4) by (simp add: ascending_def)

lemma members_eq:
  assumes "wf_swim E s"
  shows "members s u = map_option (\<lambda>i. info (view s ! i)) (swim_state_get_node E s u)"
proof (cases "swim_state_get_node E s u")
  case None
  then have "map_of (map (\<lambda>nd. (node_uuid nd, info nd)) (nodes s)) u = None"
    using get_node_None [OF assms, of u] by (simp add: map_of_eq_None_iff image_image)
  then show ?thesis using None by (simp add: members_def)
next
  case (Some i)
  then have i: "i < view_size s" "node_uuid (view s ! i) = u"
    using get_node_Some [OF assms] by auto
  then have "(u, info (view s ! i)) \<in> set (map (\<lambda>nd. (node_uuid nd, info nd)) (nodes s))"
    using wf_swim_nth [OF assms i(1)] by force
  moreover have "distinct (map fst (map (\<lambda>nd. (node_uuid nd, info nd)) (nodes s)))"
    using distinct_uuids [OF assms] by (simp add: comp_def)
  ultimately show ?thesis using Some by (simp add: members_def)
qed

lemma members_upd_node:
  assumes wf: "wf_swim E s" and i: "i < view_size s" "node_uuid (f (view s ! i)) = u" "node_uuid (view s ! i) = u"
  shows "members (upd_node i f s) = (members s)(u \<mapsto> info (f (view s ! i)))"
proof -
  let ?kv = "\<lambda>nd. (node_uuid nd, info nd)"
  have l: "i < length (view s)" using wf_swimD(3) [OF wf] i by simp
  have "map ?kv (nodes (upd_node i f s)) = (map ?kv (nodes s))[i := (u, info (f (view s ! i)))]"
    using i by (simp add: nodes_upd_node map_update)
  then show ?thesis
    using map_of_update [of "map ?kv (nodes s)" i u "info (f (view s ! i))"] distinct_uuids [OF wf] i l
    by (simp add: members_def comp_def)
qed

lemma swim_view_grow_cases:
  assumes wf: "wf_swim E (w_swim w)"
  shows "wp (\<lambda>e. e = SignedOverflow \<and> 2 ^ 30 \<le> view_size (w_swim w)) (swim_view_grow E w) (\<lambda>(ok, w').
           wf_swim E (w_swim w') \<and> nodes (w_swim w') = nodes (w_swim w) \<and>
           view_size (w_swim w') = view_size (w_swim w) \<and> s_uuid (w_swim w') = s_uuid (w_swim w) \<and>
           s_incarnation (w_swim w') = s_incarnation (w_swim w) \<and> w_sent w' = w_sent w \<and>
           (ok \<longrightarrow> view_size (w_swim w') < length (view (w_swim w'))) \<and>
           (\<not> ok \<longrightarrow> w_swim w' = w_swim w \<and> \<not> x_alloc E (w_alloc w)))"
proof -
  have sz: "view_size (w_swim w) \<le> view_capacity (w_swim w)" "0 < view_capacity (w_swim w)"
    "length (view (w_swim w)) = view_capacity (w_swim w)"
    using wf by (auto simp: wf_swim_def)
  show ?thesis
    using wf sz fresh
    by (auto simp: swim_view_grow_def c_alloc_def wf_swim_def wf_probe_def Let_def)
qed

lemma swim_view_insert_spec:
  assumes wf: "wf_swim E s" and room: "view_size s < length (view s)" and ni: "wf_info ni"
    and new: "n_uuid ni \<noteq> s_uuid s" "n_uuid ni \<notin> node_uuid ` set (nodes s)"
  shows "\<exists>s' nd. swim_view_insert E ni s = Inr (view_size s, s') \<and> wf_swim E s' \<and>
           s_uuid s' = s_uuid s \<and> s_incarnation s' = s_incarnation s \<and>
           view_size s' = Suc (view_size s) \<and> info nd = ni \<and>
           mset (nodes s') = add_mset nd (mset (nodes s)) \<and>
           members s' = (members s)(n_uuid ni \<mapsto> ni)"
proof -
  let ?i = "view_size s" and ?cmp = "\<lambda>a b. x_uuid_compare E (node_uuid a) (node_uuid b)"
  define nd where "nd = (view s ! ?i)\<lparr>info := ni\<rparr>"
  define new where "new = qsort ?cmp (nodes s @ [nd])"
  define s' where "s' = swim_probe_invalidate (s\<lparr>view := new @ drop (Suc ?i) (view s), view_size := Suc ?i\<rparr>)"
  have c: "(\<lambda>a b. node_compare E (node_uuid a) b) = ?cmp"
    by (simp add: node_compare_def fun_eq_iff)
  have tk: "take (Suc ?i) ((view s)[?i := nd]) = nodes s @ [nd]"
    using room by (simp add: take_Suc_conv_app_nth)
  have ins: "swim_view_insert E ni s = Inr (?i, s')"
    using room tk by (simp add: swim_view_insert_def Let_def c s'_def new_def upd_node_def nd_def swim_probe_invalidate_def)
  have ndu: "node_uuid nd = n_uuid ni" "info nd = ni" by (simp_all add: nd_def)
  have nds: "nodes s' = new" and len: "length new = Suc ?i"
    using room by (auto simp: s'_def new_def)
  have ms: "mset new = add_mset nd (mset (nodes s))" by (simp add: new_def)
  have st: "set new = insert nd (set (nodes s))" by (simp add: new_def)
  have dist: "distinct (map node_uuid (nodes s @ [nd]))"
    using distinct_uuids [OF wf] new ndu by (auto simp: image_iff)
  have asc: "ascending E new"
    unfolding new_def ascending_def by (rule uc.sorted_qsort [OF dist])
  have wfnd: "wf_node nd"
    using wf_swimD(7) [OF wf nth_mem [OF room]] ni by (simp add: nd_def wf_node_def)
  have wf': "wf_swim E s'"
    unfolding wf_swim_def nds
    using wf room asc new st wfnd len
    by (auto simp: s'_def wf_swim_def wf_probe_def swim_probe_invalidate_def ndu wf_node_def dest: in_set_dropD)
  have dn: "distinct (map fst (map (\<lambda>nd. (node_uuid nd, info nd)) new))"
    using uc.ascending_distinct [of node_uuid new] asc by (simp add: ascending_def comp_def)
  have "members s' = map_of (map (\<lambda>nd. (node_uuid nd, info nd)) (nodes s @ [nd]))"
    unfolding members_def nds using dn dist st
    by (subst map_of_inject_set) (auto simp: comp_def)
  also have "\<dots> = [n_uuid ni \<mapsto> ni] ++ members s"
    using ndu by (simp add: members_def)
  also have "\<dots> = (members s)(n_uuid ni \<mapsto> ni)"
  proof -
    have "members s (n_uuid ni) = None"
      using new by (auto simp: members_def map_of_eq_None_iff image_image)
    then show ?thesis by (auto simp: fun_eq_iff map_add_def split: option.split)
  qed
  finally have "members s' = (members s)(n_uuid ni \<mapsto> ni)" .
  then show ?thesis using ins wf' nds ms ndu
    by (intro exI [of _ s'] exI [of _ nd]) (simp add: s'_def swim_probe_invalidate_def)
qed

lemma swim_state_add_spec:
  assumes wf: "wf_swim E (w_swim w)" and ni: "wf_info ni"
    and new: "n_uuid ni \<noteq> s_uuid (w_swim w)" "members (w_swim w) (n_uuid ni) = None"
  shows "wp (\<lambda>e. e = SignedOverflow \<and> 2 ^ 30 \<le> view_size (w_swim w)) (swim_state_add E ni w) (\<lambda>(p, w').
           wf_swim E (w_swim w') \<and> s_uuid (w_swim w') = s_uuid (w_swim w) \<and>
           s_incarnation (w_swim w') = s_incarnation (w_swim w) \<and> w_sent w' = w_sent w \<and>
           (case p of
              None \<Rightarrow> w_swim w' = w_swim w \<and> \<not> x_alloc E (w_alloc w)
            | Some i \<Rightarrow> i = view_size (w_swim w) \<and> view_size (w_swim w') = Suc i \<and>
                members (w_swim w') = (members (w_swim w))(n_uuid ni \<mapsto> ni)))"
proof -
  have fresh_id: "n_uuid ni \<notin> node_uuid ` set (nodes (w_swim w))"
    using new(2) by (auto simp: members_def map_of_eq_None_iff image_image)
  then have none: "swim_state_get_node E (w_swim w) (n_uuid ni) = None"
    using get_node_None [OF wf] by simp
  have cmp: "x_uuid_compare E (n_uuid ni) (s_uuid (w_swim w)) \<noteq> 0"
    using new(1) by (simp add: uc.cmp_eq)
  have ins: "wp (\<lambda>_. False) (swim_view_insert E ni (w_swim w')) (\<lambda>(i, s'). i = view_size (w_swim w') \<and>
        wf_swim E s' \<and> s_uuid s' = s_uuid (w_swim w') \<and> s_incarnation s' = s_incarnation (w_swim w') \<and>
        view_size s' = Suc i \<and> members s' = (members (w_swim w'))(n_uuid ni \<mapsto> ni))"
    if "wf_swim E (w_swim w')" "view_size (w_swim w') < length (view (w_swim w'))"
      "nodes (w_swim w') = nodes (w_swim w)" "s_uuid (w_swim w') = s_uuid (w_swim w)" for w'
    using swim_view_insert_spec [OF that(1,2) ni] new(1) fresh_id that(3,4) by auto
  show ?thesis
    unfolding swim_state_add_def using cmp none
    by (simp add: case_prod_beta)
      (rule wp_mono [OF swim_view_grow_cases [OF wf]],
        auto simp: members_def intro!: wp_mono [OF ins])
qed

lemma swim_state_notice_spec:
  assumes wf: "wf_swim E s"
  shows "\<exists>s'. swim_state_notice E u t inc s =
           (case members s u of
              None \<Rightarrow> Inr (None, s)
            | Some ni \<Rightarrow> if seen_info ni then Inr (swim_state_get_node E s u, s') else Inl AssertFailed) \<and>
         wf_swim E s' \<and> s_uuid s' = s_uuid s \<and> s_incarnation s' = s_incarnation s \<and>
         view_size s' = view_size s \<and>
         members s' = (case members s u of None \<Rightarrow> members s | Some ni \<Rightarrow> (members s)(u \<mapsto> notice_info t inc ni))"
proof (cases "swim_state_get_node E s u")
  case None
  then show ?thesis
    using wf members_eq [OF wf, of u] by (intro exI [of _ s]) (simp add: swim_state_notice_def)
next
  case (Some i)
  then have i: "i < view_size s" "node_uuid (view s ! i) = u" using get_node_Some [OF wf] by auto
  have keep: "n_uuid (notice_info t inc ni) = n_uuid ni" "wf_info (notice_info t inc ni) = wf_info ni" for ni
    by (auto simp: notice_info_def wf_info_def split: Status.split)
  let ?f = "\<lambda>nd. nd\<lparr>info := notice_info t inc (info (view s ! i))\<rparr>"
  have "wf_swim E (upd_node i ?f s)"
    using wf_swim_nth [OF wf i(1)] keep by (intro wf_upd_node [OF wf i(1)]) (simp_all add: wf_node_def)
  moreover have "members (upd_node i ?f s) = (members s)(u \<mapsto> notice_info t inc (info (view s ! i)))"
    using members_upd_node [OF wf i(1), of ?f u] i(2) keep by simp
  ultimately show ?thesis
    using Some members_eq [OF wf, of u]
    by (intro exI [of _ "upd_node i ?f s"]) (simp add: swim_state_notice_def seen_info_def c_assert_def Let_def)
qed

lemma swim_state_suspect_spec:
  assumes wf: "wf_swim E s" and al: "addrlen \<le> SIZEOF_STORAGE" "addrlen \<le> length addr"
  shows "\<exists>s'. swim_state_suspect E u addr addrlen s = Inr (swim_state_get_node E s u, s') \<and>
           wf_swim E s' \<and> s_uuid s' = s_uuid s \<and> s_incarnation s' = s_incarnation s \<and>
           view_size s' = view_size s \<and>
           members s' = (case members s u of None \<Rightarrow> members s
                         | Some ni \<Rightarrow> (members s)(u \<mapsto> ni\<lparr>n_status := SWIM_STATUS_SUSPECT\<rparr>)) \<and>
           (\<forall>i. swim_state_get_node E s u = Some i \<longrightarrow>
              w_addrlen (view s' ! i) = addrlen \<and> take addrlen (w_addr (view s' ! i)) = take addrlen addr)"
proof (cases "swim_state_get_node E s u")
  case None
  then show ?thesis
    using wf members_eq [OF wf, of u] by (intro exI [of _ s]) (simp add: swim_state_suspect_def)
next
  case (Some i)
  then have i: "i < view_size s" "node_uuid (view s ! i) = u" using get_node_Some [OF wf] by auto
  have l: "i < length (view s)" using wf_swimD(3) [OF wf] i by simp
  have wfi: "wf_node (view s ! i)" using wf_swim_nth [OF wf i(1)] by simp
  let ?a = "take addrlen addr @ drop addrlen (w_addr (view s ! i))"
  let ?f = "\<lambda>nd. nd\<lparr>info := (info nd)\<lparr>n_status := SWIM_STATUS_SUSPECT\<rparr>, w_addrlen := addrlen, w_addr := ?a\<rparr>"
  have run: "swim_state_suspect E u addr addrlen s = Inr (Some i, upd_node i ?f s)"
    using Some l al wfi by (simp add: swim_state_suspect_def Let_def memcpy_ok wf_node_def)
  have "wf_swim E (upd_node i ?f s)"
    using wfi al by (intro wf_upd_node [OF wf i(1)]) (auto simp: wf_node_def wf_info_def)
  moreover have "members (upd_node i ?f s) = (members s)(u \<mapsto> (info (view s ! i))\<lparr>n_status := SWIM_STATUS_SUSPECT\<rparr>)"
    using members_upd_node [OF wf i(1), of ?f u] i(2) by simp
  ultimately show ?thesis
    using run Some l al members_eq [OF wf, of u] by (intro exI [of _ "upd_node i ?f s"]) simp
qed

lemma swim_state_del_spec:
  assumes wf: "wf_swim E s"
  shows "wf_swim E (snd (swim_state_del E u s)) \<and> s_uuid (snd (swim_state_del E u s)) = s_uuid s \<and>
         s_incarnation (snd (swim_state_del E u s)) = s_incarnation s \<and>
         view_size (snd (swim_state_del E u s)) = view_size s \<and>
         members (snd (swim_state_del E u s)) =
           (case members s u of None \<Rightarrow> members s
            | Some ni \<Rightarrow> (members s)(u \<mapsto> ni\<lparr>n_status := SWIM_STATUS_DEAD\<rparr>))"
proof -
  have self: "members s (s_uuid s) = None"
    using wf_swimD(5) [OF wf] by (auto simp: members_def map_of_eq_None_iff image_image)
  show ?thesis
  proof (cases "swim_state_get_node E s u")
    case None
    then show ?thesis using wf members_eq [OF wf, of u] by (simp add: swim_state_del_def)
  next
    case (Some i)
    then have i: "i < view_size s" "node_uuid (view s ! i) = u" using get_node_Some [OF wf] by auto
    have ne: "x_uuid_compare E u (s_uuid s) \<noteq> 0"
      using self Some members_eq [OF wf, of u] by (auto simp: uc.cmp_eq)
    let ?f = "\<lambda>nd. nd\<lparr>info := (info nd)\<lparr>n_status := SWIM_STATUS_DEAD\<rparr>\<rparr>"
    have "wf_swim E (upd_node i ?f s)"
      using wf_swim_nth [OF wf i(1)] by (intro wf_upd_node [OF wf i(1)]) (auto simp: wf_node_def wf_info_def)
    moreover have "members (upd_node i ?f s) = (members s)(u \<mapsto> (info (view s ! i))\<lparr>n_status := SWIM_STATUS_DEAD\<rparr>)"
      using members_upd_node [OF wf i(1), of ?f u] i(2) by simp
    ultimately show ?thesis
      using Some ne members_eq [OF wf, of u]
      by (simp add: swim_state_del_def) (simp add: swim_probe_invalidate_def)
  qed
qed

end

lemma info_merge_node: "info (merge_node ni nd) = merge_info ni (info nd)"
  by (auto simp: merge_node_def merge_info_def max_def)

lemma merge_info_simps [simp]:
  "n_uuid (merge_info new old) = n_uuid old"
  "n_addr (merge_info new old) = n_addr old"
  "n_addrlen (merge_info new old) = n_addrlen old"
  by (simp_all add: merge_info_def)

lemma wf_merge_node: "wf_node nd \<Longrightarrow> wf_node (merge_node ni nd)"
proof -
  have "length (w_addr nd) = SIZEOF_STORAGE \<Longrightarrow> length (w_addr (merge_node ni nd)) = SIZEOF_STORAGE"
    by (simp add: merge_node_def swim_node_reset_def)
  then show "wf_node nd \<Longrightarrow> wf_node (merge_node ni nd)"
    by (simp add: wf_node_def info_merge_node wf_info_def)
qed

context swim_env
begin

lemma swim_state_merge_spec:
  assumes wf: "wf_swim E (w_swim w)" and ni: "wf_info ni"
  shows "wp (\<lambda>e. e = SignedOverflow \<and> 2 ^ 30 \<le> view_size (w_swim w)) (swim_state_merge E ni w) (\<lambda>w'.
           wf_swim E (w_swim w') \<and> s_uuid (w_swim w') = s_uuid (w_swim w) \<and>
           s_incarnation (w_swim w') = s_incarnation (w_swim w) \<and> w_sent w' = w_sent w \<and>
           view_size (w_swim w') \<le> Suc (view_size (w_swim w)) \<and>
           (members (w_swim w') = spec_merge (s_uuid (w_swim w)) ni (members (w_swim w)) \<or>
            members (w_swim w') = members (w_swim w) \<and> members (w_swim w) (n_uuid ni) = None \<and>
            \<not> x_alloc E (w_alloc w)))"
proof (cases "n_uuid ni = s_uuid (w_swim w)")
  case True
  then show ?thesis using wf by (simp add: swim_state_merge_def uc.cmp_eq spec_merge_def)
next
  case False
  then have ne: "x_uuid_compare E (n_uuid ni) (s_uuid (w_swim w)) \<noteq> 0" by (simp add: uc.cmp_eq)
  show ?thesis
  proof (cases "swim_state_get_node E (w_swim w) (n_uuid ni)")
    case None
    then have m: "members (w_swim w) (n_uuid ni) = None" using members_eq [OF wf] by simp
    have sm: "spec_merge (s_uuid (w_swim w)) ni (members (w_swim w)) = (members (w_swim w))(n_uuid ni \<mapsto> ni)"
      using m False by (simp add: spec_merge_def)
    have run: "swim_state_merge E ni w = rbind (swim_state_add E ni w) (\<lambda>r. Inr (snd r))"
      using ne None by (simp add: swim_state_merge_def case_prod_unfold)
    show ?thesis
      unfolding run sm wp_rbind wp_simps
    proof (rule wp_mono [OF swim_state_add_spec [OF wf ni False m]], goal_cases)
      case (1 a)
      then show ?case by (cases "fst a") (simp_all add: case_prod_beta m wf)
    qed simp
  next
    case (Some i)
    then have i: "i < view_size (w_swim w)" "node_uuid (view (w_swim w) ! i) = n_uuid ni"
      using get_node_Some [OF wf] by auto
    have wfi: "wf_node (view (w_swim w) ! i)" using wf_swim_nth [OF wf i(1)] by simp
    have "wf_swim E (upd_node i (merge_node ni) (w_swim w))"
      using wf_merge_node [OF wfi] by (intro wf_upd_node [OF wf i(1)]) (simp_all add: info_merge_node)
    moreover have "members (upd_node i (merge_node ni) (w_swim w))
                   = (members (w_swim w))(n_uuid ni \<mapsto> merge_info ni (info (view (w_swim w) ! i)))"
      using members_upd_node [OF wf i(1), of "merge_node ni" "n_uuid ni"] i(2)
      by (simp add: info_merge_node)
    ultimately show ?thesis
      using ne Some False members_eq [OF wf, of "n_uuid ni"] by (simp add: swim_state_merge_def spec_merge_def)
  qed
qed

end

section \<open>An environment\<close>

text \<open>
  The assumptions hold together: identifiers compared as numbers (libuuid compares them field by
  field, most significant first), a system whose calls succeed, a clock that stands at 1000.
\<close>

definition uuid_number_compare :: "uuid \<Rightarrow> uuid \<Rightarrow> int" where
  "uuid_number_compare a b = (if a = b then 0 else if a < b then -1 else 1)"

definition calm_env :: Ext where
  "calm_env =
     \<lparr>x_uuid_compare = uuid_number_compare, x_uuid_generate = 7, x_socket = 3, x_setsockopt = 0, x_bind = 0,
      x_rand = (\<lambda>k. k), x_time = (\<lambda>_. 1000), x_alloc = (\<lambda>_. True), x_fresh = (\<lambda>_ _. zero_node),
      x_sendto = (\<lambda>_. 0), x_little_endian = True\<rparr>"

interpretation uuid_number: key_compare uuid_number_compare
  by unfold_locales (auto simp: uuid_number_compare_def split: if_splits)

interpretation calm: swim_env calm_env
  by unfold_locales (auto simp: calm_env_def zero_node_def uuid_number_compare_def split: if_splits)

text \<open>A small state for worked examples: three nodes, room for a fourth.\<close>

definition sample_node :: "uuid \<Rightarrow> Status \<Rightarrow> time_t \<Rightarrow> NodeState" where
  "sample_node u st t = zero_node\<lparr>info := zero_info\<lparr>n_uuid := u, n_status := st, n_last_seen := t\<rparr>\<rparr>"

definition sample_swim :: SWIM where
  "sample_swim = zero_swim\<lparr>s_uuid := 7, view_capacity := 4, view_size := 3,
     view := [sample_node 2 SWIM_STATUS_ALIVE 990, sample_node 5 SWIM_STATUS_SUSPECT 900,
              sample_node 9 SWIM_STATUS_DEAD 800, zero_node]\<rparr>"

definition sample_world :: World where
  "sample_world = \<lparr>w_swim = sample_swim, w_rand = 0, w_time = 0, w_alloc = 0, w_sent = []\<rparr>"

lemma sample_node_simps [simp]:
  "info (sample_node u st t) = zero_info\<lparr>n_uuid := u, n_status := st, n_last_seen := t\<rparr>"
  "w_addr (sample_node u st t) = zero_storage" "w_addrlen (sample_node u st t) = 0"
  "wf_node (sample_node u st t)"
  by (simp_all add: sample_node_def zero_node_def zero_info_def wf_node_def wf_info_def)

lemma sample_swim_simps [simp]:
  "s_uuid sample_swim = 7" "view_size sample_swim = 3" "view_capacity sample_swim = 4"
  "view sample_swim = [sample_node 2 SWIM_STATUS_ALIVE 990, sample_node 5 SWIM_STATUS_SUSPECT 900,
              sample_node 9 SWIM_STATUS_DEAD 800, zero_node]"
  "probe sample_swim = \<lparr>p_order = [], p_pos = 0, p_size = 0\<rparr>" "s_incarnation sample_swim = 0" "last_heartbeat sample_swim = 0"
  "w_swim sample_world = sample_swim" "w_sent sample_world = []" "w_alloc sample_world = 0" "w_rand sample_world = 0"
  "w_time sample_world = 0"
  by (simp_all add: sample_swim_def sample_world_def zero_swim_def)

lemma calm_env_simps [simp]:
  "x_uuid_compare calm_env = uuid_number_compare" "x_alloc calm_env k" "x_time calm_env k = 1000" "x_rand calm_env k = k"
  "x_little_endian calm_env" "x_uuid_generate calm_env = 7"
  by (simp_all add: calm_env_def)

lemma wf_sample [simp]: "wf_swim calm_env sample_swim"
  by (simp add: wf_swim_def ascending_def wf_probe_def uuid_number_compare_def zero_node_def)

lemma members_sample: "members sample_swim = [2 \<mapsto> info (sample_node 2 SWIM_STATUS_ALIVE 990),
    5 \<mapsto> info (sample_node 5 SWIM_STATUS_SUSPECT 900), 9 \<mapsto> info (sample_node 9 SWIM_STATUS_DEAD 800)]"
  by (auto simp: members_def fun_eq_iff)

end
