(* ===== verification/Swim_View.thy ===== *)
theory Swim_View
  imports Swim_State
begin

text \<open>
  The membership view as an abstract finite map: what each operation of \<open>swim/state.c\<close> promises
  to its callers, on every branch.
\<close>

section \<open>Lemmas\<close>

lemma wp_exists: "wp Er r Q \<Longrightarrow> (\<And>e. \<not> Er e) \<Longrightarrow> \<exists>a. r = Inr a \<and> Q a"
  by (cases r) auto

lemma sample_lookup [simp]:
  "swim_state_get_node calm_env sample_swim 2 = Some 0"
  "swim_state_get_node calm_env sample_swim 5 = Some 1"
  "swim_state_get_node calm_env sample_swim 9 = Some 2"
  "swim_state_get_node calm_env sample_swim 4 = None"
  by (simp_all add: calm.get_node_Some calm.get_node_None)

definition sample_info :: "uuid \<Rightarrow> 32 word \<Rightarrow> Status \<Rightarrow> time_t \<Rightarrow> NodeInfo" where
  "sample_info u inc st t = zero_info\<lparr>n_uuid := u, n_incarnation := inc, n_status := st, n_last_seen := t\<rparr>"

lemma sample_info_simps [simp]:
  "n_uuid (sample_info u inc st t) = u" "n_incarnation (sample_info u inc st t) = inc"
  "n_status (sample_info u inc st t) = st" "n_last_seen (sample_info u inc st t) = t"
  "wf_info (sample_info u inc st t)"
  by (simp_all add: sample_info_def zero_info_def wf_info_def)

lemma dom_members: "dom (members s) = node_uuid ` set (nodes s)"
  by (simp add: members_def dom_map_of_conv_image_fst image_image)

lemma swim_state_init_ok:
  assumes "0 \<le> x_socket E" "0 \<le> x_setsockopt E" "0 \<le> x_bind E" "x_alloc E (w_alloc w)"
  shows "\<exists>w'. swim_state_init E port w = (True, 10, w') \<and> wf_swim E (w_swim w') \<and> members (w_swim w') = Map.empty \<and>
           s_uuid (w_swim w') = x_uuid_generate E \<and> s_incarnation (w_swim w') = 0 \<and>
           sin_port (s_addr (w_swim w')) = c_htons (x_little_endian E) port"
  using assms
  by (auto simp: swim_state_init_def Let_def c_alloc_def c_time_def zero_swim_def wf_swim_def ascending_def wf_probe_def
      zero_node_def members_def)

text \<open>What \<open>swim_state_notice\<close> makes of a record that has been seen.\<close>

lemma notice_info_cases:
  assumes "seen_info ni"
  shows "notice_info t inc ni =
     (if n_incarnation ni < inc then ni\<lparr>n_incarnation := inc, n_status := SWIM_STATUS_ALIVE, n_last_seen := t\<rparr>
      else if n_incarnation ni = inc \<and> n_status ni \<in> {SWIM_STATUS_ALIVE, SWIM_STATUS_SUSPECT}
      then ni\<lparr>n_status := SWIM_STATUS_ALIVE, n_last_seen := t\<rparr>
      else ni)"
  using assms by (cases "n_status ni") (auto simp: notice_info_def seen_info_def intro: NodeInfo.equality)

context swim_env
begin

text \<open>The last element of the view has the greatest identifier.\<close>

lemma last_is_greatest:
  assumes wf: "wf_swim E s" and i: "view_size s = Suc i" and u: "u \<in> dom (members s)"
  shows "node_uuid (view s ! i) = u \<longleftrightarrow> (\<forall>v \<in> dom (members s). v = u \<or> x_uuid_compare E v u < 0)"
proof -
  have l: "length (nodes s) = Suc i" using wf_swimD(3) [OF wf] i by simp
  have nth: "nodes s ! i = view s ! i" using i by simp
  have mem: "node_uuid (nodes s ! i) \<in> dom (members s)" unfolding dom_members using l nth_mem [of i "nodes s"] by (metis imageI lessI)
  have lt: "x_uuid_compare E (node_uuid (nodes s ! j)) (node_uuid (nodes s ! k)) < 0 \<longleftrightarrow> j < k"
    if "j < Suc i" "k < Suc i" for j k
    by (rule uc.ascending_nth [OF wf_swimD(4) [OF wf, unfolded ascending_def]]) (simp_all only: l that)
  have idx: "\<exists>j < Suc i. v = node_uuid (nodes s ! j)" if "v \<in> dom (members s)" for v
    using that unfolding dom_members by (metis imageE in_set_conv_nth l)
  have "v = node_uuid (nodes s ! i) \<or> x_uuid_compare E v (node_uuid (nodes s ! i)) < 0" if "v \<in> dom (members s)" for v
    using idx [OF that] lt [of _ i] by (metis less_SucE lessI)
  moreover have "node_uuid (nodes s ! i) = u" if "\<forall>v \<in> dom (members s). v = u \<or> x_uuid_compare E v u < 0"
    using that mem idx [OF u] lt [of i] by (metis lessI not_less_eq)
  ultimately show ?thesis using nth by auto
qed

lemma add_pointer:
  assumes "wf_swim E (w_swim w)" "wf_info ni"
    and "n_uuid ni \<noteq> s_uuid (w_swim w)" "members (w_swim w) (n_uuid ni) = None"
    and "swim_state_add E ni w = Inr (Some i, w')"
  shows "node_uuid (view (w_swim w') ! i) = n_uuid ni \<longleftrightarrow>
           (\<forall>u \<in> dom (members (w_swim w)). x_uuid_compare E u (n_uuid ni) < 0)"
proof -
  have w': "wf_swim E (w_swim w')" "view_size (w_swim w') = Suc i"
    "members (w_swim w') = (members (w_swim w))(n_uuid ni \<mapsto> ni)"
    using wp_InrD [OF swim_state_add_spec [OF assms(1-4)] assms(5)] by auto
  define D where "D = dom (members (w_swim w))"
  have D: "dom (members (w_swim w')) = insert (n_uuid ni) D" and new: "n_uuid ni \<notin> D"
    using w'(3) assms(4) by (auto simp: D_def)
  show ?thesis
    unfolding last_is_greatest [OF w'(1,2), of "n_uuid ni", unfolded D, OF insertI1]
      D_def [symmetric] using new by auto
qed

end

section \<open>Properties\<close>

text \<open>C11: Lookup is exact on a well-formed view: the binary search returns the index of the one
  element with the given identifier if there is one, and nothing otherwise; it implements lookup
  in the finite map that the view stands for.\<close>

theorem get_node_correct:
  assumes "swim_env E" "wf_swim E s"
  shows "(\<forall>i. swim_state_get_node E s u = Some i \<longleftrightarrow> i < view_size s \<and> node_uuid (view s ! i) = u) \<and>
         members s u = map_option (\<lambda>i. info (view s ! i)) (swim_state_get_node E s u)"
  using swim_env.get_node_Some [OF assms] swim_env.members_eq [OF assms] by simp

theorem get_node_correct_witness:
  "swim_state_get_node calm_env sample_swim 5 = Some 1 \<and> members sample_swim 5 = Some (info (sample_node 5 SWIM_STATUS_SUSPECT 900))"
  using get_node_correct [OF calm.swim_env_axioms wf_sample, of 5] by simp

text \<open>C9: Adding a node that is new to the view, with memory available, puts its record into the map
  and changes nothing else in it; the array stays sorted and well formed, whatever its capacity was.\<close>

theorem state_add_refines:
  assumes "swim_env E" "wf_swim E (w_swim w)" "wf_info ni"
    and "n_uuid ni \<noteq> s_uuid (w_swim w)" "members (w_swim w) (n_uuid ni) = None"
    and "x_alloc E (w_alloc w)" "view_size (w_swim w) < 2 ^ 30"
  shows "\<exists>w'. swim_state_add E ni w = Inr (Some (view_size (w_swim w)), w') \<and> wf_swim E (w_swim w') \<and>
           members (w_swim w') = (members (w_swim w))(n_uuid ni \<mapsto> ni) \<and>
           view_size (w_swim w') = Suc (view_size (w_swim w)) \<and> w_sent w' = w_sent w"
  using wp_exists [OF swim_env.swim_state_add_spec [OF assms(1-5)]] assms(6,7)
  by (auto split: option.splits)

theorem state_add_refines_witness:
  "\<exists>w'. swim_state_add calm_env (sample_info 4 0 SWIM_STATUS_ALIVE 995) sample_world = Inr (Some 3, w') \<and>
     members (w_swim w') 4 = Some (sample_info 4 0 SWIM_STATUS_ALIVE 995)"
proof -
  have "\<exists>w'. swim_state_add calm_env (sample_info 4 0 SWIM_STATUS_ALIVE 995) sample_world
            = Inr (Some (view_size (w_swim sample_world)), w') \<and> wf_swim calm_env (w_swim w') \<and>
          members (w_swim w') = (members (w_swim sample_world))(n_uuid (sample_info 4 0 SWIM_STATUS_ALIVE 995)
              \<mapsto> sample_info 4 0 SWIM_STATUS_ALIVE 995) \<and>
          view_size (w_swim w') = Suc (view_size (w_swim sample_world)) \<and> w_sent w' = w_sent sample_world"
    by (rule state_add_refines [OF calm.swim_env_axioms]) (simp_all add: members_sample)
  then show ?thesis by auto
qed

text \<open>C38: The index that adding a node returns (the pointer into the array taken before the array is
  sorted) denotes the new node exactly when every other identifier in the view is smaller. In every
  other case the caller holds a pointer to a different node.\<close>

theorem state_add_pointer:
  assumes "swim_env E" "wf_swim E (w_swim w)" "wf_info ni"
    and "n_uuid ni \<noteq> s_uuid (w_swim w)" "members (w_swim w) (n_uuid ni) = None"
    and "swim_state_add E ni w = Inr (Some i, w')"
  shows "node_uuid (view (w_swim w') ! i) = n_uuid ni \<longleftrightarrow>
           (\<forall>u \<in> dom (members (w_swim w)). x_uuid_compare E u (n_uuid ni) < 0)"
  by (rule swim_env.add_pointer [OF assms])

theorem state_add_pointer_witness:
  "\<exists>w'. swim_state_add calm_env (sample_info 4 0 SWIM_STATUS_ALIVE 995) sample_world = Inr (Some 3, w') \<and>
     node_uuid (view (w_swim w') ! 3) \<noteq> 4"
proof -
  let ?ni = "sample_info 4 0 SWIM_STATUS_ALIVE 995"
  obtain w' where run: "swim_state_add calm_env ?ni sample_world = Inr (Some 3, w')"
    using wp_exists [OF calm.swim_state_add_spec [of sample_world ?ni]]
    by (auto simp: members_sample split: option.splits)
  have "node_uuid (view (w_swim w') ! 3) = n_uuid ?ni \<longleftrightarrow>
          (\<forall>u \<in> dom (members (w_swim sample_world)). x_uuid_compare calm_env u (n_uuid ?ni) < 0)"
    by (rule state_add_pointer [OF calm.swim_env_axioms _ _ _ _ run]) (simp_all add: members_sample)
  then show ?thesis using run by (simp add: members_sample uuid_number_compare_def)
qed

text \<open>When the array is full and memory for a larger one cannot be had, adding a node reports
  failure and leaves the state as it was.\<close>

theorem state_add_no_memory:
  assumes "swim_env E" "wf_swim E (w_swim w)" "wf_info ni"
    and "n_uuid ni \<noteq> s_uuid (w_swim w)" "members (w_swim w) (n_uuid ni) = None"
    and "view_size (w_swim w) = view_capacity (w_swim w)" "\<not> x_alloc E (w_alloc w)" "view_size (w_swim w) < 2 ^ 30"
  shows "\<exists>w'. swim_state_add E ni w = Inr (None, w') \<and> w_swim w' = w_swim w"
proof -
  have "swim_state_get_node E (w_swim w) (n_uuid ni) = None"
    using swim_env.members_eq [OF assms(1,2), of "n_uuid ni"] assms(5) by simp
  moreover have "x_uuid_compare E (n_uuid ni) (s_uuid (w_swim w)) \<noteq> 0"
    using assms(4) key_compare.cmp_eq [OF swim_env.compare [OF assms(1)]] by simp
  ultimately show ?thesis
    using assms(6-8) by (simp add: swim_state_add_def swim_view_grow_def Let_def c_alloc_def)
qed

theorem state_add_no_memory_witness:
  "\<exists>w'. swim_state_add (calm_env\<lparr>x_alloc := \<lambda>_. False\<rparr>) (sample_info 4 0 SWIM_STATUS_ALIVE 995)
      (sample_world\<lparr>w_swim := sample_swim\<lparr>view_capacity := 3, view := take 3 (view sample_swim)\<rparr>\<rparr>) = Inr (None, w') \<and>
     w_swim w' = sample_swim\<lparr>view_capacity := 3, view := take 3 (view sample_swim)\<rparr>"
proof -
  let ?E = "calm_env\<lparr>x_alloc := \<lambda>_. False\<rparr>"
  let ?w = "sample_world\<lparr>w_swim := sample_swim\<lparr>view_capacity := 3, view := take 3 (view sample_swim)\<rparr>\<rparr>"
  have env: "swim_env ?E" using calm.swim_env_axioms by (simp add: swim_env_def calm_env_def)
  have wf: "wf_swim ?E (w_swim ?w)" using wf_sample by (simp add: wf_swim_def ascending_def wf_probe_def)
  have m: "members (w_swim ?w) 4 = None" by (simp add: members_def)
  have "\<exists>w'. swim_state_add ?E (sample_info 4 0 SWIM_STATUS_ALIVE 995) ?w = Inr (None, w') \<and> w_swim w' = w_swim ?w"
    by (rule state_add_no_memory [OF env wf]) (use m in simp_all)
  then show ?thesis by simp
qed

text \<open>C15: Merging a gossip record refines the merge of the abstract map: a record about the server
  itself is ignored, an unknown node is added, a known one keeps or takes the record by incarnation
  and status.\<close>

theorem state_merge_refines:
  assumes "swim_env E" "wf_swim E (w_swim w)" "wf_info ni" "x_alloc E (w_alloc w)" "view_size (w_swim w) < 2 ^ 30"
  shows "\<exists>w'. swim_state_merge E ni w = Inr w' \<and> wf_swim E (w_swim w') \<and>
           members (w_swim w') = spec_merge (s_uuid (w_swim w)) ni (members (w_swim w)) \<and>
           s_uuid (w_swim w') = s_uuid (w_swim w) \<and> s_incarnation (w_swim w') = s_incarnation (w_swim w) \<and>
           w_sent w' = w_sent w"
  using wp_exists [OF swim_env.swim_state_merge_spec [OF assms(1-3)]] assms(4,5) by auto

theorem state_merge_refines_witness:
  "\<exists>w'. swim_state_merge calm_env (sample_info 5 0 SWIM_STATUS_DEAD 950) sample_world = Inr w' \<and>
     map_option n_status (members (w_swim w') 5) = Some SWIM_STATUS_DEAD"
proof -
  let ?ni = "sample_info 5 0 SWIM_STATUS_DEAD 950"
  have "\<exists>w'. swim_state_merge calm_env ?ni sample_world = Inr w' \<and> wf_swim calm_env (w_swim w') \<and>
           members (w_swim w') = spec_merge (s_uuid (w_swim sample_world)) ?ni (members (w_swim sample_world)) \<and>
           s_uuid (w_swim w') = s_uuid (w_swim sample_world) \<and> s_incarnation (w_swim w') = s_incarnation (w_swim sample_world) \<and>
           w_sent w' = w_sent sample_world"
    by (rule state_merge_refines [OF calm.swim_env_axioms]) simp_all
  then show ?thesis
    by (auto simp: spec_merge_def members_sample merge_info_def zero_info_def status_order)
qed

text \<open>C24: Noticing a message of a node: a sender outside the view is ignored, a sender whose record has
  not been seen (unknown status, or no time) stops the server at the assertion, and any other
  sender's record, and only that, is updated. A message of a higher incarnation makes the node alive, whatever its
  status was, with the incarnation and the time of the message. One of the same incarnation makes a node that is alive
  or suspect alive, with the time of the message, and leaves a dead one dead. One of a lower incarnation changes nothing.\<close>

theorem state_notice_cases:
  assumes "swim_env E" "wf_swim E s"
  shows "case members s u of
      None \<Rightarrow> swim_state_notice E u t inc s = Inr (None, s)
    | Some ni \<Rightarrow>
        if seen_info ni then
          \<exists>i s' ni'. swim_state_notice E u t inc s = Inr (Some i, s') \<and> wf_swim E s' \<and>
            members s' = (members s)(u \<mapsto> ni') \<and>
            ni' = (if n_incarnation ni < inc then ni\<lparr>n_incarnation := inc, n_status := SWIM_STATUS_ALIVE, n_last_seen := t\<rparr>
                   else if n_incarnation ni = inc \<and> n_status ni \<in> {SWIM_STATUS_ALIVE, SWIM_STATUS_SUSPECT}
                   then ni\<lparr>n_status := SWIM_STATUS_ALIVE, n_last_seen := t\<rparr>
                   else ni)
        else swim_state_notice E u t inc s = Inl AssertFailed"
proof (cases "members s u")
  case None
  then show ?thesis using swim_env.swim_state_notice_spec [OF assms, of u t inc] by auto
next
  case (Some ni)
  then show ?thesis
    using swim_env.swim_state_notice_spec [OF assms, of u t inc] swim_env.members_eq [OF assms, of u] notice_info_cases [of ni t inc]
    by auto
qed

theorem state_notice_cases_witness:
  "\<exists>i s'. swim_state_notice calm_env 5 1000 0 sample_swim = Inr (Some i, s') \<and>
     map_option n_status (members s' 5) = Some SWIM_STATUS_ALIVE"
proof -
  have seen: "seen_info (info (sample_node 5 SWIM_STATUS_SUSPECT 900))" by (simp add: seen_info_def zero_info_def)
  then show ?thesis
    using state_notice_cases [OF calm.swim_env_axioms wf_sample, of 5 1000 0]
    by (auto simp: members_sample zero_info_def)
qed

text \<open>Marking a node as suspect changes the status of that node only, and records the sender of the
  request as its witness, byte for byte.\<close>

theorem state_suspect_refines:
  assumes "swim_env E" "wf_swim E s" "addrlen \<le> SIZEOF_STORAGE" "addrlen \<le> length addr" "members s u = Some ni"
  shows "\<exists>i s'. swim_state_suspect E u addr addrlen s = Inr (Some i, s') \<and> wf_swim E s' \<and>
           members s' = (members s)(u \<mapsto> ni\<lparr>n_status := SWIM_STATUS_SUSPECT\<rparr>) \<and>
           node_uuid (view s' ! i) = u \<and> take (w_addrlen (view s' ! i)) (w_addr (view s' ! i)) = take addrlen addr"
proof -
  obtain i where i: "swim_state_get_node E s u = Some i"
    using swim_env.members_eq [OF assms(1,2), of u] assms(5) by (cases "swim_state_get_node E s u") auto
  obtain s' where s': "swim_state_suspect E u addr addrlen s = Inr (Some i, s')" "wf_swim E s'"
    "members s' = (members s)(u \<mapsto> ni\<lparr>n_status := SWIM_STATUS_SUSPECT\<rparr>)"
    "w_addrlen (view s' ! i) = addrlen" "take addrlen (w_addr (view s' ! i)) = take addrlen addr" "view_size s' = view_size s"
    using swim_env.swim_state_suspect_spec [OF assms(1-4), of u] i assms(5) by auto
  have il: "node_uuid (view s ! i) = u" "i < length (view s)"
    using i swim_env.get_node_Some [OF assms(1,2)] wf_swimD(3) [OF assms(2)] by auto
  have "node_uuid (view s' ! i) = u"
    using s'(1) i il by (auto simp: swim_state_suspect_def Let_def)
  with s' show ?thesis by auto
qed

theorem state_suspect_refines_witness:
  "\<exists>i s'. swim_state_suspect calm_env 2 [1, 2, 3] 3 sample_swim = Inr (Some i, s') \<and>
     take (w_addrlen (view s' ! i)) (w_addr (view s' ! i)) = [1, 2, 3]"
proof -
  have "\<exists>i s'. swim_state_suspect calm_env 2 [1, 2, 3] 3 sample_swim = Inr (Some i, s') \<and> wf_swim calm_env s' \<and>
     members s' = (members sample_swim)(2 \<mapsto> (info (sample_node 2 SWIM_STATUS_ALIVE 990))\<lparr>n_status := SWIM_STATUS_SUSPECT\<rparr>) \<and>
     node_uuid (view s' ! i) = 2 \<and> take (w_addrlen (view s' ! i)) (w_addr (view s' ! i)) = take 3 [1, 2, 3]"
    by (rule state_suspect_refines [OF calm.swim_env_axioms wf_sample]) (simp_all add: members_sample)
  then show ?thesis by auto
qed

text \<open>Deleting a node marks its record dead and keeps it in the view; deleting the server itself or
  an unknown node does nothing to the map.\<close>

theorem state_del_refines:
  assumes "swim_env E" "wf_swim E s"
  shows "wf_swim E (snd (swim_state_del E u s)) \<and>
         members (snd (swim_state_del E u s)) =
           (\<lambda>v. if v = u then map_option (\<lambda>ni. ni\<lparr>n_status := SWIM_STATUS_DEAD\<rparr>) (members s u) else members s v)"
  using swim_env.swim_state_del_spec [OF assms, of u] by (auto split: option.splits)

theorem state_del_refines_witness:
  "map_option n_status (members (snd (swim_state_del calm_env 2 sample_swim)) 2) = Some SWIM_STATUS_DEAD"
  using state_del_refines [OF calm.swim_env_axioms wf_sample, of 2] by (simp add: members_sample)

text \<open>Initialisation, when the socket can be set up and memory is available, establishes the
  representation invariant with an empty view.\<close>

theorem state_init_wf:
  assumes "0 \<le> x_socket E" "0 \<le> x_setsockopt E" "0 \<le> x_bind E" "x_alloc E (w_alloc w)"
  shows "\<exists>w'. swim_state_init E port w = (True, 10, w') \<and> wf_swim E (w_swim w') \<and> members (w_swim w') = Map.empty \<and>
           s_uuid (w_swim w') = x_uuid_generate E \<and> s_incarnation (w_swim w') = 0"
  using swim_state_init_ok [OF assms] by blast

theorem state_init_wf_witness:
  "\<exists>w'. swim_state_init calm_env 4711 sample_world = (True, 10, w') \<and> wf_swim calm_env (w_swim w') \<and> s_uuid (w_swim w') = 7"
proof -
  have "\<exists>w'. swim_state_init calm_env 4711 sample_world = (True, 10, w') \<and> wf_swim calm_env (w_swim w') \<and>
      members (w_swim w') = Map.empty \<and> s_uuid (w_swim w') = x_uuid_generate calm_env \<and> s_incarnation (w_swim w') = 0"
    by (rule state_init_wf) (simp_all add: calm_env_def)
  then show ?thesis by auto
qed

end
