(* ===== verification/Swim_Gossip.thy ===== *)
theory Swim_Gossip
  imports Swim_State "HOL-Library.Product_Lexorder"
begin

text \<open>
  The algebra of gossip. What a node record claims is its \<open>rank\<close>: incarnation first, then status
  (alive below suspect below dead). Merging a record (\<open>swim_state_merge\<close>) takes the larger of two
  ranks, so what a view says after any amount of gossip depends only on which records it has
  heard, not on their order or on how often it heard them.
\<close>

section \<open>Merging as a join\<close>

text \<open>\<open>absorb\<close> takes one record into a view, \<open>heard u xs\<close> are the records about \<open>u\<close>.\<close>

definition absorb :: "('i \<Rightarrow> 'u) \<Rightarrow> ('i \<Rightarrow> 'i \<Rightarrow> 'i) \<Rightarrow> 'i \<Rightarrow> ('u \<rightharpoonup> 'i) \<Rightarrow> ('u \<rightharpoonup> 'i)" where
  "absorb key merge x m = m(key x \<mapsto> (case m (key x) of None \<Rightarrow> x | Some y \<Rightarrow> merge x y))"

lemma Max_insert_max:
  "finite R \<Longrightarrow> Max (insert (max a b) R) = Max (insert a (insert b R))" for a b :: "'r :: linorder"
  by (cases "R = {}") (simp_all add: max.assoc)

locale join_merge =
  fixes key :: "'i \<Rightarrow> 'u"
    and merge :: "'i \<Rightarrow> 'i \<Rightarrow> 'i"
    and rank :: "'i \<Rightarrow> 'r :: linorder"
    and ok :: "'i \<Rightarrow> bool"
  assumes merge_ok: "ok x \<Longrightarrow> ok y \<Longrightarrow> ok (merge x y)"
    and merge_rank: "ok x \<Longrightarrow> ok y \<Longrightarrow> rank (merge x y) = max (rank x) (rank y)"
begin

lemma absorb_ok:
  "ok x \<Longrightarrow> \<forall>y \<in> ran m. ok y \<Longrightarrow> \<forall>y \<in> ran (absorb key merge x m). ok y"
  by (auto simp: absorb_def ran_def merge_ok split: option.splits if_splits)

lemma fold_absorb_ok:
  "\<forall>x \<in> set xs. ok x \<Longrightarrow> \<forall>y \<in> ran m. ok y \<Longrightarrow> \<forall>y \<in> ran (fold (absorb key merge) xs m). ok y"
proof (induction xs arbitrary: m)
  case (Cons x xs)
  then have "\<forall>y \<in> ran (absorb key merge x m). ok y" by (intro absorb_ok) simp_all
  with Cons show ?case by simp
qed simp

lemma rank_absorb:
  assumes "ok x" "\<forall>y \<in> ran m. ok y"
  shows "map_option rank (absorb key merge x m u) =
     (if u = key x then Some (case map_option rank (m u) of None \<Rightarrow> rank x | Some r \<Rightarrow> max (rank x) r)
      else map_option rank (m u))"
  using assms by (auto simp: absorb_def ran_def merge_rank split: option.split)

text \<open>The rank after a sequence of records: the largest of those heard.\<close>

lemma rank_fold_absorb:
  assumes "\<forall>x \<in> set xs. ok x" "\<forall>y \<in> ran m. ok y"
  shows "map_option rank (fold (absorb key merge) xs m u) =
     (let rs = rank ` {x \<in> set xs. key x = u} \<union> set_option (map_option rank (m u))
      in if rs = {} then None else Some (Max rs))"
  using assms
proof (induction xs arbitrary: m)
  case Nil
  show ?case by (cases "m u") simp_all
next
  case (Cons x xs)
  let ?R = "rank ` {y \<in> set xs. key y = u}"
  have fin: "finite ?R" by simp
  have ok: "\<forall>y \<in> ran (absorb key merge x m). ok y" using Cons.prems by (intro absorb_ok) simp_all
  have IH: "map_option rank (fold (absorb key merge) (x # xs) m u) =
     (let rs = ?R \<union> set_option (map_option rank (absorb key merge x m u)) in if rs = {} then None else Some (Max rs))"
    using Cons.IH [OF _ ok] Cons.prems(1) by simp
  show ?case
  proof (cases "u = key x")
    case False
    then have "{y \<in> set (x # xs). key y = u} = {y \<in> set xs. key y = u}" by auto
    then show ?thesis
      using IH False rank_absorb [of x m u] Cons.prems by (simp only: if_False) simp
  next
    case True
    then have R: "rank ` {y \<in> set (x # xs). key y = u} = insert (rank x) ?R" by auto
    show ?thesis
    proof (cases "m u")
      case None
      then have a: "map_option rank (absorb key merge x m u) = Some (rank x)"
        using rank_absorb [of x m u] True Cons.prems by simp
      show ?thesis unfolding IH R a using None by (simp add: Let_def)
    next
      case (Some y)
      then have a: "map_option rank (absorb key merge x m u) = Some (max (rank x) (rank y))"
        using rank_absorb [of x m u] True Cons.prems by simp
      show ?thesis
        unfolding IH R a using Some Max_insert_max [OF fin, of "rank x" "rank y"]
        by (simp add: Let_def Un_commute [of ?R] insert_commute del: Max_insert)
    qed
  qed
qed

lemma gossip_order:
  assumes "set xs = set ys" "\<forall>x \<in> set xs. ok x" "\<forall>y \<in> ran m. ok y"
  shows "map_option rank (fold (absorb key merge) xs m u) = map_option rank (fold (absorb key merge) ys m u)"
  using assms rank_fold_absorb [of xs m u] rank_fold_absorb [of ys m u] by simp

lemma gossip_grows:
  assumes "\<forall>x \<in> set xs. ok x" "\<forall>y \<in> ran m. ok y" "m u = Some y"
  shows "\<exists>z. fold (absorb key merge) xs m u = Some z \<and> rank y \<le> rank z"
proof -
  have "map_option rank (fold (absorb key merge) xs m u) = Some (Max (rank ` {x \<in> set xs. key x = u} \<union> {rank y}))"
    using rank_fold_absorb [OF assms(1,2), of u] assms(3) by simp
  then obtain z where z: "fold (absorb key merge) xs m u = Some z"
    "rank z = Max (rank ` {x \<in> set xs. key x = u} \<union> {rank y})" by (auto simp: map_option_eq_Some)
  have "rank y \<le> rank z" unfolding z(2) by (rule Max_ge) simp_all
  with z(1) show ?thesis by blast
qed

lemma gossip_hears:
  assumes "\<forall>x \<in> set xs. ok x" "\<forall>y \<in> ran m. ok y" "x \<in> set xs"
  shows "\<exists>z. fold (absorb key merge) xs m (key x) = Some z \<and> rank x \<le> rank z"
proof -
  let ?R = "rank ` {y \<in> set xs. key y = key x} \<union> set_option (map_option rank (m (key x)))"
  have R: "finite ?R" "rank x \<in> ?R" using assms(3) by auto
  then have "map_option rank (fold (absorb key merge) xs m (key x)) = Some (Max ?R)"
    unfolding rank_fold_absorb [OF assms(1,2)] Let_def by (metis empty_iff)
  then show ?thesis using Max_ge [OF R] by auto
qed

end

section \<open>The merge of the program\<close>

definition claim_rank :: "NodeInfo \<Rightarrow> 32 word \<times> Status" where
  "claim_rank ni = (n_incarnation ni, n_status ni)"

definition claimed :: "NodeInfo \<Rightarrow> bool" where
  "claimed ni \<longleftrightarrow> n_status ni \<in> {SWIM_STATUS_ALIVE, SWIM_STATUS_SUSPECT, SWIM_STATUS_DEAD}"

lemma merge_info_rank:
  assumes "claimed new" "claimed old"
  shows "claim_rank (merge_info new old) = max (claim_rank new) (claim_rank old)"
    and "claimed (merge_info new old)"
  using assms
  by (auto simp: claim_rank_def claimed_def merge_info_def max_def less_eq_prod_def status_order)

interpretation swim_gossip: join_merge n_uuid merge_info claim_rank claimed
  by unfold_locales (simp_all add: merge_info_rank)

lemma spec_merge_absorb: "n_uuid ni \<noteq> self \<Longrightarrow> spec_merge self ni m = absorb n_uuid merge_info ni m"
  by (simp add: spec_merge_def absorb_def)

lemma fold_spec_merge:
  "fold (spec_merge self) xs m = fold (absorb n_uuid merge_info) (filter (\<lambda>ni. n_uuid ni \<noteq> self) xs) m"
  by (induction xs arbitrary: m) (simp_all add: spec_merge_absorb, simp add: spec_merge_def)

lemma fold_spec_merge_other: "\<forall>ni \<in> set xs. n_uuid ni \<noteq> u \<Longrightarrow> fold (spec_merge self) xs m u = m u"
  by (induction xs arbitrary: m) (auto simp: spec_merge_def)

text \<open>What one gossip record does to a server: to its view, and to its own incarnation number if it
  hears that it is suspected.\<close>

definition spec_gossip ::
  "uuid \<Rightarrow> NodeInfo \<Rightarrow> (uuid \<rightharpoonup> NodeInfo) \<times> 32 word \<Rightarrow> (uuid \<rightharpoonup> NodeInfo) \<times> 32 word" where
  "spec_gossip self ni = (\<lambda>(m, inc).
     (spec_merge self ni m, if n_uuid ni = self \<and> n_status ni = SWIM_STATUS_SUSPECT then inc + 1 else inc))"

lemma fst_fold_spec_gossip: "fst (fold (spec_gossip self) xs (m, inc)) = fold (spec_merge self) xs m"
  by (induction xs arbitrary: m inc) (simp_all add: spec_gossip_def)

lemma snd_fold_spec_gossip:
  "snd (fold (spec_gossip self) xs (m, inc)) =
     inc + of_nat (length (filter (\<lambda>ni. n_uuid ni = self \<and> n_status ni = SWIM_STATUS_SUSPECT) xs))"
  by (induction xs arbitrary: m inc) (simp_all add: spec_gossip_def)

end
