(* ===== verification/Swim_Probe.thy ===== *)
theory Swim_Probe
  imports Swim_State
begin

text \<open>
  The probe schedule of \<open>swim/state.c\<close>: a shuffled round robin over the indices of the view.
  \<open>probe_calls\<close> is a sequence of calls of \<open>swim_probe_next\<close> with nothing in between.
\<close>

section \<open>Operations\<close>

fun shuffle_loop :: "Ext \<Rightarrow> nat \<Rightarrow> nat list \<Rightarrow> World \<Rightarrow> nat list \<times> World" where
  "shuffle_loop E 0 ord w = (ord, w)"
| "shuffle_loop E (Suc i) ord w =
     (let (r, w) = c_rand E w; j = r mod (Suc i + 1)
      in shuffle_loop E i (swap ord (Suc i) j) w)"

definition swim_probe_shuffle :: "Ext \<Rightarrow> World \<Rightarrow> World" where
  "swim_probe_shuffle E w =
     (let n = view_size (w_swim w) in
      if n = 0 then
        w\<lparr>w_swim := (w_swim w)\<lparr>probe := (probe (w_swim w))\<lparr>p_size := 0, p_pos := 0\<rparr>\<rparr>\<rparr>
      else
        let (ok, w) = c_alloc E w in
        if \<not> ok then w
        else
          let (ord, w) = shuffle_loop E (n - 1) [0..<n] w
          in w\<lparr>w_swim := (w_swim w)\<lparr>probe := \<lparr>p_order = ord, p_pos = 0, p_size = n\<rparr>\<rparr>\<rparr>)"

function probe_loop :: "SWIM \<Rightarrow> (nat option \<times> SWIM) result" where
  "probe_loop s =
     (let p = probe s in
      if p_pos p < p_size p then
        if length (p_order p) \<le> p_pos p then Inl OutOfBounds
        else
          let idx = p_order p ! p_pos p; s = s\<lparr>probe := p\<lparr>p_pos := Suc (p_pos p)\<rparr>\<rparr> in
          if idx < view_size s \<and> length (view s) \<le> idx then Inl OutOfBounds
          else if idx < view_size s \<and> node_status (view s ! idx) \<noteq> SWIM_STATUS_DEAD then Inr (Some idx, s)
          else probe_loop s
      else Inr (None, s))"
  by pat_completeness auto
termination
  by (relation "measure (\<lambda>s. p_size (probe s) - p_pos (probe s))") auto

declare probe_loop.simps [simp del]

definition swim_probe_next :: "Ext \<Rightarrow> World \<Rightarrow> (nat option \<times> World) result" where
  "swim_probe_next E w =
     (if view_size (w_swim w) = 0 then Inr (None, w)
      else
        let p = probe (w_swim w);
            w = (if p_size p \<le> p_pos p \<or> p_size p \<noteq> view_size (w_swim w)
                 then swim_probe_shuffle E w else w)
        in rbind (probe_loop (w_swim w)) (\<lambda>(r, s). Inr (r, w\<lparr>w_swim := s\<rparr>)))"

primrec probe_calls :: "Ext \<Rightarrow> nat \<Rightarrow> World \<Rightarrow> (nat option list \<times> World) result" where
  "probe_calls E 0 w = Inr ([], w)"
| "probe_calls E (Suc k) w =
     rbind (swim_probe_next E w) (\<lambda>(r, w). rbind (probe_calls E k w) (\<lambda>(rs, w). Inr (r # rs, w)))"

text \<open>The indices a probe may return, and those a round has left.\<close>

definition probeable :: "SWIM \<Rightarrow> nat \<Rightarrow> bool" where
  "probeable s i \<longleftrightarrow> i < view_size s \<and> node_status (view s ! i) \<noteq> SWIM_STATUS_DEAD"

definition live_indices :: "SWIM \<Rightarrow> nat list" where
  "live_indices s = filter (probeable s) [0..<view_size s]"

definition round_left :: "SWIM \<Rightarrow> nat list" where
  "round_left s =
     (if p_size (probe s) = view_size s then filter (probeable s) (drop (p_pos (probe s)) (p_order (probe s))) else [])"

section \<open>The shuffle\<close>

lemma shuffle_loop_mset:
  "n < length ord \<Longrightarrow> mset (fst (shuffle_loop E n ord w)) = mset ord \<and>
     w_swim (snd (shuffle_loop E n ord w)) = w_swim w \<and> w_alloc (snd (shuffle_loop E n ord w)) = w_alloc w \<and>
     w_sent (snd (shuffle_loop E n ord w)) = w_sent w"
proof (induction n arbitrary: ord w)
  case (Suc n)
  let ?j = "x_rand E (w_rand w) mod (Suc n + 1)"
  have "?j < length ord" using Suc.prems by (metis Suc_eq_plus1 less_trans_Suc mod_less_divisor not_less_eq zero_less_Suc)
  then show ?case
    using Suc.IH [of "swap ord (Suc n) ?j" "w\<lparr>w_rand := Suc (w_rand w)\<rparr>"] Suc.prems mset_swap [of "Suc n" ord ?j]
    by (simp add: c_rand_def)
qed simp

lemma swim_probe_shuffle_fail:
  "view_size (w_swim w) \<noteq> 0 \<Longrightarrow> \<not> x_alloc E (w_alloc w) \<Longrightarrow>
   swim_probe_shuffle E w = w\<lparr>w_alloc := Suc (w_alloc w)\<rparr>"
  by (simp add: swim_probe_shuffle_def Let_def c_alloc_def)

lemma swim_probe_shuffle_ok:
  assumes "view_size (w_swim w) \<noteq> 0" "x_alloc E (w_alloc w)"
  shows "\<exists>ord. w_swim (swim_probe_shuffle E w) = (w_swim w)\<lparr>probe := \<lparr>p_order = ord, p_pos = 0, p_size = view_size (w_swim w)\<rparr>\<rparr> \<and>
           mset ord = mset [0..<view_size (w_swim w)] \<and> w_sent (swim_probe_shuffle E w) = w_sent w"
proof -
  let ?n = "view_size (w_swim w)"
  let ?r = "shuffle_loop E (?n - 1) [0..<?n] (w\<lparr>w_alloc := Suc (w_alloc w)\<rparr>)"
  have "mset (fst ?r) = mset [0..<?n] \<and> w_swim (snd ?r) = w_swim w \<and> w_sent (snd ?r) = w_sent w"
    using shuffle_loop_mset [of "?n - 1" "[0..<?n]" E "w\<lparr>w_alloc := Suc (w_alloc w)\<rparr>"] assms(1) by simp
  moreover have "swim_probe_shuffle E w =
      (snd ?r)\<lparr>w_swim := (w_swim (snd ?r))\<lparr>probe := \<lparr>p_order = fst ?r, p_pos = 0, p_size = ?n\<rparr>\<rparr>\<rparr>"
    using assms by (simp add: swim_probe_shuffle_def Let_def c_alloc_def case_prod_unfold)
  ultimately show ?thesis by (intro exI [of _ "fst ?r"]) simp
qed

lemma wf_shuffle:
  assumes "wf_swim E s" "mset ord = mset [0..<view_size s]"
  shows "wf_swim E (s\<lparr>probe := \<lparr>p_order = ord, p_pos = k, p_size = view_size s\<rparr>\<rparr>)"
  using assms by (simp add: wf_swim_def wf_probe_def)

section \<open>One probe\<close>

lemma probe_loop_spec:
  assumes "view_size s \<le> length (view s)" "p_size (probe s) = length (p_order (probe s))"
  shows "probe_loop s = Inr
     (case filter (probeable s) (drop (p_pos (probe s)) (p_order (probe s))) of
        [] \<Rightarrow> (None, s\<lparr>probe := (probe s)\<lparr>p_pos := max (p_pos (probe s)) (p_size (probe s))\<rparr>\<rparr>)
      | i # _ \<Rightarrow> (Some i, s\<lparr>probe := (probe s)\<lparr>p_pos := p_pos (probe s) + Suc (length
           (takeWhile (\<lambda>j. \<not> probeable s j) (drop (p_pos (probe s)) (p_order (probe s)))))\<rparr>\<rparr>))"
  using assms
proof (induction s rule: probe_loop.induct)
  case (1 s)
  let ?p = "probe s"
  let ?s = "s\<lparr>probe := ?p\<lparr>p_pos := Suc (p_pos ?p)\<rparr>\<rparr>"
  have pb: "probeable (s\<lparr>probe := q\<rparr>) = probeable s" for q by (simp add: probeable_def fun_eq_iff)
  show ?case
  proof (cases "p_pos ?p < p_size ?p")
    case False
    then show ?thesis using "1.prems" by (simp add: probe_loop.simps [of s] Let_def max_def)
  next
    case True
    let ?i = "p_order ?p ! p_pos ?p"
    have l: "p_pos ?p < length (p_order ?p)" using True "1.prems" by simp
    have d: "drop (p_pos ?p) (p_order ?p) = ?i # drop (Suc (p_pos ?p)) (p_order ?p)"
      using l by (simp add: Cons_nth_drop_Suc)
    show ?thesis
    proof (cases "probeable s ?i")
      case pi: True
      then show ?thesis
        using True l "1.prems" by (simp add: probe_loop.simps [of s] Let_def d probeable_def)
    next
      case False
      have "probe_loop s = probe_loop ?s"
        using True l False "1.prems" by (auto simp: probe_loop.simps [of s] Let_def probeable_def)
      then show ?thesis
        using "1.IH" [OF refl True _ refl refl] False True l "1.prems"
        by (auto simp: d pb probeable_def max_def split: list.split)
    qed
  qed
qed

text \<open>A schedule is current when it covers the view as it is now.\<close>

definition current :: "SWIM \<Rightarrow> bool" where
  "current s \<longleftrightarrow> view_size s \<le> length (view s) \<and> p_size (probe s) = view_size s \<and>
     mset (p_order (probe s)) = mset [0..<view_size s]"

lemma probeable_probe [simp]: "probeable (s\<lparr>probe := q\<rparr>) = probeable s"
  by (simp add: probeable_def fun_eq_iff)

lemma current_length: "current s \<Longrightarrow> p_size (probe s) = length (p_order (probe s))"
  using mset_eq_length [of "p_order (probe s)" "[0..<view_size s]"] by (simp add: current_def)

lemma current_probe_loop:
  assumes "current s"
  shows "round_left s = [] \<Longrightarrow> probe_loop s = Inr (None, s\<lparr>probe := (probe s)\<lparr>p_pos := max (p_pos (probe s)) (p_size (probe s))\<rparr>\<rparr>)"
    and "round_left s = i # rest \<Longrightarrow> \<exists>k. probe_loop s = Inr (Some i, s\<lparr>probe := (probe s)\<lparr>p_pos := k\<rparr>\<rparr>) \<and>
           round_left (s\<lparr>probe := (probe s)\<lparr>p_pos := k\<rparr>\<rparr>) = rest"
proof -
  let ?d = "drop (p_pos (probe s)) (p_order (probe s))"
  have rl: "round_left s = filter (probeable s) ?d" using assms by (simp add: round_left_def current_def)
  note spec = probe_loop_spec [OF _ current_length [OF assms]]
  have v: "view_size s \<le> length (view s)" using assms by (simp add: current_def)
  show "round_left s = [] \<Longrightarrow> probe_loop s = Inr (None, s\<lparr>probe := (probe s)\<lparr>p_pos := max (p_pos (probe s)) (p_size (probe s))\<rparr>\<rparr>)"
    using spec [OF v] rl by simp
  assume "round_left s = i # rest"
  then have l: "filter (probeable s) ?d = i # rest" using rl by simp
  let ?k = "length (takeWhile (\<lambda>j. \<not> probeable s j) ?d)"
  have "filter (probeable s) (drop (Suc (length (takeWhile (\<lambda>j. \<not> probeable s j) xs))) xs) = rest"
    if "filter (probeable s) xs = i # rest" for xs
    using that by (induction xs) (auto split: if_splits)
  from this [of ?d] have "filter (probeable s) (drop (p_pos (probe s) + Suc ?k) (p_order (probe s))) = rest"
    using l by (simp add: add.commute)
  then show "\<exists>k. probe_loop s = Inr (Some i, s\<lparr>probe := (probe s)\<lparr>p_pos := k\<rparr>\<rparr>) \<and>
           round_left (s\<lparr>probe := (probe s)\<lparr>p_pos := k\<rparr>\<rparr>) = rest"
    using spec [OF v] l assms by (intro exI [of _ "p_pos (probe s) + Suc ?k"]) (simp add: round_left_def current_def)
qed

lemma round_left_probe [simp]:
  "mset ord = mset [0..<view_size s] \<Longrightarrow>
   mset (round_left (s\<lparr>probe := \<lparr>p_order = ord, p_pos = 0, p_size = view_size s\<rparr>\<rparr>)) = mset (live_indices s)"
  by (simp add: round_left_def live_indices_def)

lemma set_round_left: "current s \<Longrightarrow> set (round_left s) \<subseteq> set (live_indices s)"
  using mset_eq_setD [of "p_order (probe s)" "[0..<view_size s]"]
  by (auto simp: round_left_def current_def live_indices_def dest: in_set_dropD)

lemma distinct_round_left: "current s \<Longrightarrow> distinct (round_left s)"
  using mset_eq_imp_distinct_iff [of "p_order (probe s)" "[0..<view_size s]"]
  by (simp add: round_left_def current_def)

lemma round_left_card:
  assumes "current s"
  shows "length (round_left s) \<le> length (live_indices s)"
    and "i \<in> set (live_indices s) \<Longrightarrow> i \<notin> set (round_left s) \<Longrightarrow> length (round_left s) < length (live_indices s)"
proof -
  have c: "card (set (round_left s)) = length (round_left s)" "card (set (live_indices s)) = length (live_indices s)"
    using distinct_card [OF distinct_round_left [OF assms]] distinct_card [of "live_indices s"]
    by (simp_all add: live_indices_def)
  show "length (round_left s) \<le> length (live_indices s)"
    using card_mono [OF _ set_round_left [OF assms]] c by simp
  assume "i \<in> set (live_indices s)" "i \<notin> set (round_left s)"
  then have "set (round_left s) \<subset> set (live_indices s)" using set_round_left [OF assms] by blast
  then show "length (round_left s) < length (live_indices s)"
    using psubset_card_mono [of "set (live_indices s)" "set (round_left s)"] c by simp
qed

text \<open>A probe either continues the round or, if the round is over or the view has changed,
  starts one (unless memory for it cannot be had).\<close>

definition probe_start :: "Ext \<Rightarrow> World \<Rightarrow> World" where
  "probe_start E w =
     (if p_size (probe (w_swim w)) \<le> p_pos (probe (w_swim w)) \<or> p_size (probe (w_swim w)) \<noteq> view_size (w_swim w)
      then swim_probe_shuffle E w else w)"

lemma swim_probe_next_start:
  "view_size (w_swim w) \<noteq> 0 \<Longrightarrow>
   swim_probe_next E w = rbind (probe_loop (w_swim (probe_start E w))) (\<lambda>(r, s). Inr (r, (probe_start E w)\<lparr>w_swim := s\<rparr>))"
  by (simp add: swim_probe_next_def probe_start_def Let_def)

lemma probe_start_cases:
  assumes wf: "wf_swim E (w_swim w)" and n: "view_size (w_swim w) \<noteq> 0"
  shows "\<exists>p. w_swim (probe_start E w) = (w_swim w)\<lparr>probe := p\<rparr> \<and> w_sent (probe_start E w) = w_sent w \<and>
           wf_swim E ((w_swim w)\<lparr>probe := p\<rparr>) \<and>
           (current ((w_swim w)\<lparr>probe := p\<rparr>) \<or> p_size p \<le> p_pos p)"
proof (cases "p_size (probe (w_swim w)) \<le> p_pos (probe (w_swim w)) \<or> p_size (probe (w_swim w)) \<noteq> view_size (w_swim w)")
  case False
  then have "current (w_swim w)"
    using wf n by (auto simp: current_def wf_swim_def wf_probe_def)
  then show ?thesis using wf False by (intro exI [of _ "probe (w_swim w)"]) (simp add: probe_start_def)
next
  case True
  show ?thesis
  proof (cases "x_alloc E (w_alloc w)")
    case False
    have "p_size (probe (w_swim w)) \<le> p_pos (probe (w_swim w))"
      using True wf by (auto simp: wf_swim_def wf_probe_def)
    then show ?thesis
      using swim_probe_shuffle_fail [OF n False] wf True
      by (intro exI [of _ "probe (w_swim w)"]) (simp add: probe_start_def)
  next
    case ok: True
    show ?thesis
      using swim_probe_shuffle_ok [OF n ok] wf True wf_shuffle [OF wf] wf_swimD(3) [OF wf]
      by (auto simp: probe_start_def current_def)
  qed
qed

lemma swim_probe_next_ok:
  assumes wf: "wf_swim E (w_swim w)"
  shows "\<exists>r p w'. swim_probe_next E w = Inr (r, w') \<and> w_swim w' = (w_swim w)\<lparr>probe := p\<rparr> \<and>
           wf_swim E (w_swim w') \<and> w_sent w' = w_sent w \<and> (\<forall>i. r = Some i \<longrightarrow> probeable (w_swim w) i)"
proof (cases "view_size (w_swim w) = 0")
  case True
  then show ?thesis using wf by (intro exI [of _ None] exI [of _ "probe (w_swim w)"]) (simp add: swim_probe_next_def)
next
  case False
  obtain p where p: "w_swim (probe_start E w) = (w_swim w)\<lparr>probe := p\<rparr>" "w_sent (probe_start E w) = w_sent w"
    "wf_swim E ((w_swim w)\<lparr>probe := p\<rparr>)" "current ((w_swim w)\<lparr>probe := p\<rparr>) \<or> p_size p \<le> p_pos p"
    using probe_start_cases [OF wf False] by blast
  let ?s = "(w_swim w)\<lparr>probe := p\<rparr>"
  have keep: "wf_swim E (?s\<lparr>probe := p\<lparr>p_pos := k\<rparr>\<rparr>)" for k
    using p(3) by (simp add: wf_swim_def wf_probe_def)
  have "\<exists>r k. probe_loop ?s = Inr (r, ?s\<lparr>probe := p\<lparr>p_pos := k\<rparr>\<rparr>) \<and> (\<forall>i. r = Some i \<longrightarrow> probeable (w_swim w) i)"
  proof (cases "current ?s")
    case False
    then show ?thesis using p(4) by (intro exI [of _ None] exI [of _ "p_pos p"]) (simp add: probe_loop.simps [of ?s])
  next
    case cur: True
    show ?thesis
    proof (cases "round_left ?s")
      case Nil
      then show ?thesis using current_probe_loop(1) [OF cur Nil] by auto
    next
      case (Cons i l)
      then have "i \<in> set (round_left ?s)" by simp
      then have "probeable (w_swim w) i" by (auto simp: round_left_def split: if_splits)
      then show ?thesis using current_probe_loop(2) [OF cur Cons] by auto
    qed
  qed
  then obtain r k where "probe_loop ?s = Inr (r, ?s\<lparr>probe := p\<lparr>p_pos := k\<rparr>\<rparr>)" "\<forall>i. r = Some i \<longrightarrow> probeable (w_swim w) i"
    by blast
  then show ?thesis
    using p(1,2) keep [of k]
    by (intro exI [of _ r] exI [of _ "p\<lparr>p_pos := k\<rparr>"]) (simp add: swim_probe_next_start [OF False])
qed

section \<open>Sequences of probes\<close>

lemma probe_calls_append:
  "probe_calls E (m + n) w =
     rbind (probe_calls E m w) (\<lambda>(rs, w). rbind (probe_calls E n w) (\<lambda>(rs', w). Inr (rs @ rs', w)))"
proof (induction m arbitrary: w)
  case 0
  show ?case by (cases "probe_calls E n w") auto
next
  case (Suc m)
  then show ?case by (cases "swim_probe_next E w") (auto simp: rbind_assoc case_prod_unfold)
qed

lemma probe_calls_round:
  assumes "current (w_swim w)" "view_size (w_swim w) \<noteq> 0" "round_left (w_swim w) = l"
  shows "\<exists>w' q. probe_calls E (length l) w = Inr (map Some l, w') \<and> w_swim w' = (w_swim w)\<lparr>probe := q\<rparr> \<and>
           current (w_swim w') \<and> round_left (w_swim w') = []"
  using assms
proof (induction l arbitrary: w)
  case Nil
  then show ?case by (intro exI [of _ w] exI [of _ "probe (w_swim w)"]) simp
next
  case (Cons i l)
  have "p_pos (probe (w_swim w)) < length (p_order (probe (w_swim w)))"
    using Cons.prems(3) by (auto simp: round_left_def split: if_splits intro: ccontr)
  then have st: "probe_start E w = w"
    using Cons.prems(1) current_length [OF Cons.prems(1)] by (simp add: probe_start_def current_def)
  obtain k where k: "probe_loop (w_swim w) = Inr (Some i, (w_swim w)\<lparr>probe := (probe (w_swim w))\<lparr>p_pos := k\<rparr>\<rparr>)"
    "round_left ((w_swim w)\<lparr>probe := (probe (w_swim w))\<lparr>p_pos := k\<rparr>\<rparr>) = l"
    using current_probe_loop(2) [OF Cons.prems(1,3)] by blast
  let ?w = "w\<lparr>w_swim := (w_swim w)\<lparr>probe := (probe (w_swim w))\<lparr>p_pos := k\<rparr>\<rparr>\<rparr>"
  have nx: "swim_probe_next E w = Inr (Some i, ?w)"
    using k(1) st swim_probe_next_start [OF Cons.prems(2)] by simp
  have "current (w_swim ?w)" using Cons.prems(1) by (simp add: current_def)
  from Cons.IH [OF this] k(2) Cons.prems(2) nx show ?case by auto
qed

lemma probe_calls_fresh:
  assumes wf: "wf_swim E (w_swim w)" and live: "live_indices (w_swim w) \<noteq> []" and mem: "x_alloc E (w_alloc w)"
    and over: "p_size (probe (w_swim w)) \<le> p_pos (probe (w_swim w)) \<or> p_size (probe (w_swim w)) \<noteq> view_size (w_swim w)"
  shows "\<exists>l w' q. probe_calls E (length (live_indices (w_swim w))) w = Inr (map Some l, w') \<and>
           mset l = mset (live_indices (w_swim w)) \<and> w_swim w' = (w_swim w)\<lparr>probe := q\<rparr>"
proof -
  let ?s = "w_swim w"
  have n: "view_size ?s \<noteq> 0" using live by (intro notI) (simp add: live_indices_def)
  obtain ord where ord: "w_swim (probe_start E w) = ?s\<lparr>probe := \<lparr>p_order = ord, p_pos = 0, p_size = view_size ?s\<rparr>\<rparr>"
    "mset ord = mset [0..<view_size ?s]"
    using swim_probe_shuffle_ok [OF n mem] over by (auto simp: probe_start_def)
  have cur: "current (w_swim (probe_start E w))"
    using ord wf_swimD(3) [OF wf] by (simp add: current_def)
  have idem: "probe_start E (probe_start E w) = probe_start E w"
    using ord(1) n by (simp add: probe_start_def [of E "probe_start E w"])
  have "swim_probe_next E w = swim_probe_next E (probe_start E w)"
    using n ord(1) by (simp add: swim_probe_next_start idem)
  then have calls: "probe_calls E (Suc k) w = probe_calls E (Suc k) (probe_start E w)" for k by simp
  let ?l = "round_left (w_swim (probe_start E w))"
  have ms: "mset ?l = mset (live_indices ?s)" using ord by simp
  then have len: "length ?l = length (live_indices ?s)" by (rule mset_eq_length)
  then obtain k where k: "length ?l = Suc k" using live by (cases "length (live_indices ?s)") auto
  have n': "view_size (w_swim (probe_start E w)) \<noteq> 0" using n ord(1) by simp
  obtain w' q where run: "probe_calls E (length ?l) (probe_start E w) = Inr (map Some ?l, w')"
    "w_swim w' = (w_swim (probe_start E w))\<lparr>probe := q\<rparr>"
    using probe_calls_round [OF cur n' refl, of E] by blast
  have "probe_calls E (length (live_indices ?s)) w = Inr (map Some ?l, w')"
    using run(1) calls [of k] k len by (simp only:)
  moreover have "w_swim w' = ?s\<lparr>probe := q\<rparr>" using run(2) ord(1) by simp
  ultimately show ?thesis using ms by blast
qed

lemma probe_calls_ok:
  assumes "wf_swim E (w_swim w)"
  shows "\<exists>rs w' q. probe_calls E n w = Inr (rs, w') \<and> w_swim w' = (w_swim w)\<lparr>probe := q\<rparr> \<and> wf_swim E (w_swim w')"
  using assms
proof (induction n arbitrary: w)
  case 0
  then show ?case by (intro exI [of _ "[]"] exI [of _ w] exI [of _ "probe (w_swim w)"]) simp
next
  case (Suc n)
  obtain r p w1 where 1: "swim_probe_next E w = Inr (r, w1)" "w_swim w1 = (w_swim w)\<lparr>probe := p\<rparr>" "wf_swim E (w_swim w1)"
    using swim_probe_next_ok [OF Suc.prems] by blast
  from Suc.IH [OF 1(3)] 1 show ?case by force
qed

lemma probe_calls_more:
  assumes wf: "wf_swim E (w_swim w)" and rs: "probe_calls E m w = Inr (rs, w')" and k: "m \<le> n"
  shows "\<exists>rs' w''. probe_calls E n w = Inr (rs @ rs', w'')"
proof -
  obtain q where "wf_swim E (w_swim w')" using probe_calls_ok [OF wf, of m] rs by auto
  then obtain rs' w'' where "probe_calls E (n - m) w' = Inr (rs', w'')" using probe_calls_ok by blast
  then show ?thesis using probe_calls_append [of E m "n - m" w] rs k by simp
qed

lemma live_indices_probe [simp]: "live_indices (s\<lparr>probe := q\<rparr>) = live_indices s"
  by (simp add: live_indices_def)

text \<open>Where no node is dead, a round that has none left is at its end.\<close>

lemma all_live_round:
  assumes "current s" "round_left s = []" "p_pos (probe s) < p_size (probe s)"
  shows "length (live_indices s) < view_size s"
proof -
  have l: "length (p_order (probe s)) = p_size (probe s)" "p_size (probe s) = view_size s"
    using current_length [OF assms(1)] assms(1) by (simp_all add: current_def)
  let ?i = "p_order (probe s) ! p_pos (probe s)"
  have mem: "?i \<in> set (drop (p_pos (probe s)) (p_order (probe s)))"
    using assms(3) l(1) by (metis Cons_nth_drop_Suc list.set_intros(1))
  then have no: "\<not> probeable s ?i" using assms(2) l(2) by (auto simp: round_left_def filter_empty_conv)
  have "?i < view_size s"
    using in_set_dropD [OF mem] assms(1) mset_eq_setD [of "p_order (probe s)" "[0..<view_size s]"] by (auto simp: current_def)
  then have "length (filter (probeable s) [0..<view_size s]) < length [0..<view_size s]"
    using no by (intro length_filter_less [of ?i]) simp_all
  then show ?thesis by (simp add: live_indices_def)
qed

lemma probe_calls_finish:
  assumes cur: "current (w_swim w)" and n: "view_size (w_swim w) \<noteq> 0"
  shows "\<exists>k rs w' q. probe_calls E k w = Inr (rs, w') \<and>
           k \<le> length (round_left (w_swim w)) + (if length (live_indices (w_swim w)) < view_size (w_swim w) then 1 else 0) \<and>
           Some ` set (round_left (w_swim w)) \<subseteq> set rs \<and> w_swim w' = (w_swim w)\<lparr>probe := q\<rparr> \<and> p_size q \<le> p_pos q"
proof -
  let ?l = "round_left (w_swim w)"
  obtain w1 q where 1: "probe_calls E (length ?l) w = Inr (map Some ?l, w1)" "w_swim w1 = (w_swim w)\<lparr>probe := q\<rparr>"
    "current (w_swim w1)" "round_left (w_swim w1) = []"
    using probe_calls_round [OF cur n refl, of E] by blast
  show ?thesis
  proof (cases "p_size q \<le> p_pos q")
    case True
    then show ?thesis using 1(1,2) by (intro exI [of _ "length ?l"] exI [of _ "map Some ?l"]) auto
  next
    case False
    then have "probe_start E w1 = w1" using 1(2,3) by (simp add: probe_start_def current_def)
    then have "swim_probe_next E w1 = Inr (None, w1\<lparr>w_swim := (w_swim w)\<lparr>probe := q\<lparr>p_pos := p_size q\<rparr>\<rparr>\<rparr>)"
      using swim_probe_next_start [of w1 E] n 1(2) current_probe_loop(1) [OF 1(3,4)] False by (simp add: max_def)
    then have "probe_calls E (length ?l + 1) w
               = Inr (map Some ?l @ [None], w1\<lparr>w_swim := (w_swim w)\<lparr>probe := q\<lparr>p_pos := p_size q\<rparr>\<rparr>\<rparr>)"
      using 1(1) by (simp only: probe_calls_append) simp
    moreover have "length (live_indices (w_swim w)) < view_size (w_swim w)"
      using all_live_round [OF 1(3,4)] 1(2) False by (simp add: not_le)
    ultimately show ?thesis
      by (intro exI [of _ "length ?l + 1"] exI [of _ "map Some ?l @ [None]"]
            exI [of _ "w1\<lparr>w_swim := (w_swim w)\<lparr>probe := q\<lparr>p_pos := p_size q\<rparr>\<rparr>\<rparr>"] exI [of _ "q\<lparr>p_pos := p_size q\<rparr>"]) auto
  qed
qed

text \<open>However the round stands, every node that is not dead is probed within \<open>2 N - 1\<close> calls.\<close>

lemma probe_fair:
  assumes wf: "wf_swim E (w_swim w)" and mem: "\<forall>k. x_alloc E k" and i: "i \<in> set (live_indices (w_swim w))"
  shows "\<exists>rs w'. probe_calls E (2 * view_size (w_swim w) - 1) w = Inr (rs, w') \<and> Some i \<in> set rs"
proof -
  let ?s = "w_swim w" and ?L = "length (live_indices (w_swim w))" and ?N = "view_size (w_swim w)"
  let ?over = "\<lambda>s. p_size (probe s) \<le> p_pos (probe s) \<or> p_size (probe s) \<noteq> view_size s"
  have L: "?L \<le> ?N" using length_filter_le [of "probeable ?s" "[0..<?N]"] by (simp add: live_indices_def)
  have ne: "live_indices ?s \<noteq> []" using i by (metis list.distinct(1) list.set_cases)
  have fresh: "\<exists>rs w''. probe_calls E ?L w' = Inr (rs, w'') \<and> Some i \<in> set rs"
    if w': "w_swim w' = ?s\<lparr>probe := q\<rparr>" "wf_swim E (w_swim w')" "?over (w_swim w')" for w' q
  proof -
    have lv: "live_indices (w_swim w') = live_indices ?s" using w'(1) by simp
    then obtain l w'' where "probe_calls E ?L w' = Inr (map Some l, w'')" "mset l = mset (live_indices ?s)"
      using probe_calls_fresh [OF w'(2) _ _ w'(3)] ne mem by (auto simp: lv)
    moreover from this have "i \<in> set l" using i mset_eq_setD by blast
    ultimately show ?thesis by auto
  qed
  have more: "\<exists>rs w'. probe_calls E (2 * ?N - 1) w = Inr (rs, w') \<and> Some i \<in> set rs"
    if "probe_calls E k w = Inr (rs, w')" "Some i \<in> set rs" "k \<le> 2 * ?N - 1" for k rs w'
    using probe_calls_more [OF wf that(1,3)] that(2) by auto
  show ?thesis
  proof (cases "?over ?s")
    case True
    obtain rs w' where "probe_calls E ?L w = Inr (rs, w')" "Some i \<in> set rs"
      using fresh [of w "probe ?s"] wf True by auto
    moreover have "?L \<le> 2 * ?N - 1" using L ne by (cases "live_indices ?s") auto
    ultimately show ?thesis using more by blast
  next
    case False
    have n: "view_size ?s \<noteq> 0" using i by (auto simp: live_indices_def probeable_def)
    have cur: "current ?s" using False wf n by (auto simp: current_def wf_swim_def wf_probe_def)
    obtain k rs w1 q where 1: "probe_calls E k w = Inr (rs, w1)" "k \<le> length (round_left ?s) + (if ?L < ?N then 1 else 0)"
      "Some ` set (round_left ?s) \<subseteq> set rs" "w_swim w1 = ?s\<lparr>probe := q\<rparr>" "p_size q \<le> p_pos q"
      using probe_calls_finish [OF cur n, of E] by blast
    have wf1: "wf_swim E (w_swim w1)" using probe_calls_ok [OF wf, of k] 1(1) by auto
    have le: "length (round_left ?s) \<le> ?L" "i \<notin> set (round_left ?s) \<Longrightarrow> length (round_left ?s) < ?L"
      using round_left_card [OF cur] i by blast+
    obtain rs' w' where "probe_calls E ?L w1 = Inr (rs', w')" "Some i \<in> set rs'"
      using fresh [OF 1(4) wf1] 1(4,5) by auto
    then have "probe_calls E (k + ?L) w = Inr (rs @ rs', w')" "Some i \<in> set (rs @ rs')"
      using 1(1) by (simp_all add: probe_calls_append)
    moreover have "Some i \<in> set rs" if "i \<in> set (round_left ?s)" using that 1(3) by blast
    moreover have "0 < ?L" using ne by simp
    then have "k \<le> 2 * ?N - 1" using 1(2) le(1) L by (auto split: if_splits)
    moreover have "k + ?L \<le> 2 * ?N - 1" if "i \<notin> set (round_left ?s)" using 1(2) le(2) [OF that] L by (auto split: if_splits)
    ultimately show ?thesis
      using more [OF 1(1)] more [of "k + ?L" "rs @ rs'" w'] by blast
  qed
qed

section \<open>Properties\<close>

lemma live_sample: "live_indices sample_swim = [0, 1]"
  by (simp add: live_indices_def probeable_def zero_info_def upt_rec)

text \<open>A shuffle, when memory for it is available, starts a round that visits every index of the view
  exactly once, whatever the random numbers are, and changes nothing else of the state.\<close>

theorem probe_shuffle_permutes:
  assumes "0 < view_size (w_swim w)" "x_alloc E (w_alloc w)"
  shows "\<exists>ord. w_swim (swim_probe_shuffle E w) =
            (w_swim w)\<lparr>probe := \<lparr>p_order = ord, p_pos = 0, p_size = view_size (w_swim w)\<rparr>\<rparr> \<and>
          mset ord = mset [0..<view_size (w_swim w)]"
  using swim_probe_shuffle_ok [of w E] assms by auto

theorem probe_shuffle_permutes_witness:
  "\<exists>ord. w_swim (swim_probe_shuffle calm_env sample_world) = sample_swim\<lparr>probe := \<lparr>p_order = ord, p_pos = 0, p_size = 3\<rparr>\<rparr> \<and>
     mset ord = mset [0..<3]"
  using probe_shuffle_permutes [of sample_world calm_env] by simp

text \<open>C26: Selecting the next probe target never reads outside the schedule or the view; the index it
  returns is that of a node in the view which is not dead, and only the schedule changes.\<close>

theorem probe_next_safe:
  assumes "wf_swim E (w_swim w)"
  shows "\<exists>r p w'. swim_probe_next E w = Inr (r, w') \<and> w_swim w' = (w_swim w)\<lparr>probe := p\<rparr> \<and> wf_swim E (w_swim w') \<and>
           (case r of None \<Rightarrow> True
            | Some i \<Rightarrow> i < view_size (w_swim w) \<and> node_status (view (w_swim w) ! i) \<noteq> SWIM_STATUS_DEAD)"
  using swim_probe_next_ok [OF assms] by (fastforce simp: probeable_def split: option.split)

theorem probe_next_safe_witness:
  "\<exists>r p w'. swim_probe_next calm_env sample_world = Inr (r, w') \<and> w_swim w' = sample_swim\<lparr>probe := p\<rparr>"
  using probe_next_safe [of calm_env sample_world] by auto

text \<open>C25: A round is fair: starting with a fresh schedule, as many probes as there are nodes that are not
  dead return each of these nodes exactly once.\<close>

theorem probe_round_exact:
  assumes "wf_swim E (w_swim w)" "live_indices (w_swim w) \<noteq> []" "x_alloc E (w_alloc w)"
    and "p_size (probe (w_swim w)) \<le> p_pos (probe (w_swim w))"
  shows "\<exists>l w'. probe_calls E (length (live_indices (w_swim w))) w = Inr (map Some l, w') \<and>
           distinct l \<and> set l = {i. i < view_size (w_swim w) \<and> node_status (view (w_swim w) ! i) \<noteq> SWIM_STATUS_DEAD}"
proof -
  obtain l w' where l: "probe_calls E (length (live_indices (w_swim w))) w = Inr (map Some l, w')"
    "mset l = mset (live_indices (w_swim w))"
    using probe_calls_fresh [OF assms(1-3)] assms(4) by blast
  have "distinct l" using mset_eq_imp_distinct_iff [OF l(2)] by (simp add: live_indices_def)
  moreover have "set l = {i. i < view_size (w_swim w) \<and> node_status (view (w_swim w) ! i) \<noteq> SWIM_STATUS_DEAD}"
    using mset_eq_setD [OF l(2)] by (auto simp: live_indices_def probeable_def)
  ultimately show ?thesis using l(1) by blast
qed

theorem probe_round_exact_witness:
  "\<exists>l w'. probe_calls calm_env 2 sample_world = Inr (map Some l, w') \<and> distinct l \<and> 0 \<in> set l \<and> 1 \<in> set l \<and> 2 \<notin> set l"
proof -
  have len: "length (live_indices (w_swim sample_world)) = 2" by (simp add: live_sample)
  have "\<exists>l w'. probe_calls calm_env (length (live_indices (w_swim sample_world))) sample_world = Inr (map Some l, w') \<and>
           distinct l \<and> set l = {i. i < view_size (w_swim sample_world) \<and> node_status (view (w_swim sample_world) ! i) \<noteq> SWIM_STATUS_DEAD}"
    by (rule probe_round_exact) (simp_all add: live_sample)
  then obtain l w' where l: "probe_calls calm_env 2 sample_world = Inr (map Some l, w')" "distinct l"
    "set l = {i. i < view_size (w_swim sample_world) \<and> node_status (view (w_swim sample_world) ! i) \<noteq> SWIM_STATUS_DEAD}"
    unfolding len by blast
  have "0 \<in> set l" "1 \<in> set l" "2 \<notin> set l" unfolding l(3) by (simp_all add: zero_info_def)
  with l(1,2) show ?thesis by blast
qed

text \<open>C10: No node is starved: however far the current round has come, every node that is not dead is returned
  within the next \<open>2 N - 1\<close> probes, \<open>N\<close> the size of the view, as the comment on \<open>ProbeSchedule\<close> claims. This holds
  although a probe can return nothing, at the end of a round that only has dead nodes left.\<close>

theorem probe_no_starvation:
  assumes "wf_swim E (w_swim w)" "\<forall>k. x_alloc E k" "i \<in> set (live_indices (w_swim w))"
  shows "\<exists>rs w'. probe_calls E (2 * view_size (w_swim w) - 1) w = Inr (rs, w') \<and> Some i \<in> set rs"
  using probe_fair [OF assms] .

theorem probe_no_starvation_witness:
  "\<exists>rs w'. probe_calls calm_env 5 sample_world = Inr (rs, w') \<and> Some 1 \<in> set rs"
proof -
  have "\<exists>rs w'. probe_calls calm_env (2 * view_size (w_swim sample_world) - 1) sample_world = Inr (rs, w') \<and> Some 1 \<in> set rs"
    by (rule probe_no_starvation) (simp_all add: live_sample)
  then show ?thesis by simp
qed

end
