(* ===== verification/Swim_Event.thy ===== *)
theory Swim_Event
  imports Swim_State
begin

text \<open>
  The events of \<open>swim/event.h\<close>, and their creation (\<open>swim/event.c\<close>).

  The structs of the union in \<open>Event\<close> all start with the header, and \<open>ping_req_uuid\<close>,
  \<open>ack_uuid\<close>, \<open>join_uuid\<close> and \<open>leave_uuid\<close> are the same 16 bytes after it: they are the
  one field \<open>ev_uuid\<close>, followed by the address of a join event. \<open>gossip\<close> is the array that
  follows the struct, with as many elements as there is memory for.
\<close>

section \<open>Data\<close>

abbreviation SWIM_PROTOCOL_VERSION :: nat where "SWIM_PROTOCOL_VERSION \<equiv> 1"
abbreviation SWIM_MAX_PACKET_SIZE :: nat where "SWIM_MAX_PACKET_SIZE \<equiv> 2048"
abbreviation SWIM_MAXLEAVE :: nat where "SWIM_MAXLEAVE \<equiv> 5"
abbreviation SWIM_MAX_GOSSIP_SIZE :: nat where "SWIM_MAX_GOSSIP_SIZE \<equiv> 10"
abbreviation SWIM_MAXPINGREQ :: nat where "SWIM_MAXPINGREQ \<equiv> 5"
abbreviation SWIM_HEARTBEAT_INTERVAL :: int where "SWIM_HEARTBEAT_INTERVAL \<equiv> 1"

text \<open>Sizes of the structs with 8-byte \<open>time_t\<close> and pointers.\<close>

abbreviation SIZEOF_EVENT :: nat where "SIZEOF_EVENT \<equiv> 200"
abbreviation SIZEOF_NODEINFO :: nat where "SIZEOF_NODEINFO \<equiv> 168"

datatype EventType =
    EVENT_TYPE_PING
  | EVENT_TYPE_ACK
  | EVENT_TYPE_PING_REQ
  | EVENT_TYPE_JOIN
  | EVENT_TYPE_LEAVE
  | EVENT_TYPE_OTHER nat

fun event_code :: "EventType \<Rightarrow> nat" where
  "event_code EVENT_TYPE_PING = 0"
| "event_code EVENT_TYPE_ACK = 1"
| "event_code EVENT_TYPE_PING_REQ = 2"
| "event_code EVENT_TYPE_JOIN = 16"
| "event_code EVENT_TYPE_LEAVE = 17"
| "event_code (EVENT_TYPE_OTHER n) = n"

definition event_of_code :: "nat \<Rightarrow> EventType" where
  "event_of_code n =
     (if n = 0 then EVENT_TYPE_PING else if n = 1 then EVENT_TYPE_ACK
      else if n = 2 then EVENT_TYPE_PING_REQ else if n = 16 then EVENT_TYPE_JOIN
      else if n = 17 then EVENT_TYPE_LEAVE else EVENT_TYPE_OTHER n)"

record EventHeader =
  h_type :: EventType
  h_uuid :: uuid
  h_time :: time_t
  h_incarnation :: "32 word"

record Event =
  hdr :: EventHeader
  ev_uuid :: uuid
  join_addrlen :: nat
  join_addr :: "byte list"
  gossip_count :: nat
  gossip :: "NodeInfo list"

definition zero_event :: "nat \<Rightarrow> Event" where
  "zero_event n =
     \<lparr>hdr = \<lparr>h_type = EVENT_TYPE_PING, h_uuid = 0, h_time = 0, h_incarnation = 0\<rparr>,
      ev_uuid = 0, join_addrlen = 0, join_addr = zero_storage, gossip_count = 0,
      gossip = replicate n zero_info\<rparr>"

section \<open>Operations\<close>

definition swim_event_init :: "Ext \<Rightarrow> Event \<Rightarrow> EventType \<Rightarrow> World \<Rightarrow> Event \<times> World" where
  "swim_event_init E ev ty w =
     (let (t, w') = c_time E w in
      ((zero_event 0)\<lparr>hdr := \<lparr>h_type = ty, h_uuid = s_uuid (w_swim w), h_time = t,
                              h_incarnation = s_incarnation (w_swim w)\<rparr>,
                       gossip := gossip ev\<rparr>, w'))"

definition swim_event_create :: "Ext \<Rightarrow> EventType \<Rightarrow> nat \<Rightarrow> World \<Rightarrow> (Event option \<times> World) result" where
  "swim_event_create E ty n w =
     (let event_size = SIZEOF_EVENT + n * SIZEOF_NODEINFO in
      rbind (c_assert (n \<le> SWIM_MAX_GOSSIP_SIZE)) (\<lambda>_.
      rbind (c_assert (event_size < SWIM_MAX_PACKET_SIZE)) (\<lambda>_.
      let (ok, w) = c_alloc E w in
      if \<not> ok then Inr (None, w)
      else
        let (ev, w) = swim_event_init E (zero_event n) ty w
        in Inr (Some (ev\<lparr>gossip_count := n\<rparr>), w))))"

text \<open>An event whose address objects are well formed and whose gossip is inside its array.\<close>

definition wf_event :: "Event \<Rightarrow> bool" where
  "wf_event ev \<longleftrightarrow>
     length (join_addr ev) = SIZEOF_STORAGE \<and>
     (h_type (hdr ev) = EVENT_TYPE_JOIN \<longrightarrow> join_addrlen ev \<le> SIZEOF_STORAGE) \<and>
     gossip_count ev \<le> length (gossip ev) \<and>
     (\<forall>ni \<in> set (take (gossip_count ev) (gossip ev)). wf_info ni)"

section \<open>Lemmas\<close>

lemma event_of_code_cases [simp]:
  "event_of_code 0 = EVENT_TYPE_PING" "event_of_code (Suc 0) = EVENT_TYPE_ACK"
  "event_of_code 2 = EVENT_TYPE_PING_REQ" "event_of_code 16 = EVENT_TYPE_JOIN"
  "event_of_code 17 = EVENT_TYPE_LEAVE"
  by (simp_all add: event_of_code_def)

lemma wp_swim_event_create:
  assumes "n \<le> SWIM_MAX_GOSSIP_SIZE"
    and "\<And>w'. w_swim w' = w_swim w \<Longrightarrow> w_sent w' = w_sent w \<Longrightarrow> w_rand w' = w_rand w \<Longrightarrow>
          \<not> x_alloc E (w_alloc w) \<Longrightarrow> Q (None, w')"
    and "\<And>ev w'. w_swim w' = w_swim w \<Longrightarrow> w_sent w' = w_sent w \<Longrightarrow> w_rand w' = w_rand w \<Longrightarrow>
          hdr ev = \<lparr>h_type = ty, h_uuid = s_uuid (w_swim w), h_time = x_time E (w_time w),
                    h_incarnation = s_incarnation (w_swim w)\<rparr> \<Longrightarrow>
          ev_uuid ev = 0 \<Longrightarrow> join_addrlen ev = 0 \<Longrightarrow> join_addr ev = zero_storage \<Longrightarrow>
          gossip_count ev = n \<Longrightarrow> gossip ev = replicate n zero_info \<Longrightarrow> Q (Some ev, w')"
  shows "wp Er (swim_event_create E ty n w) Q"
  using assms
  by (auto simp: swim_event_create_def swim_event_init_def zero_event_def c_alloc_def c_time_def Let_def)

end
