(* ===== verification/Swim_Encoding.thy ===== *)
theory Swim_Encoding
  imports Swim_Event
begin

text \<open>
  The wire format: \<open>swim/encoding.h\<close> and \<open>swim/encoding.c\<close>.

  An encoder writes at the start of the free part of the buffer and returns how many bytes it
  wrote: here it takes the size of the free part and returns the bytes, and \<open>enc_then\<close> is the
  idiom \<open>ptr += f(ptr, end - ptr, ...); ptr += g(ptr, end - ptr, ...)\<close>. A decoder takes the
  rest of the buffer and returns the decoded value with the bytes after it; a decoder that
  stores through a pointer also takes the object it overwrites.

  \<open>le\<close> is the byte order of the host (true: little endian). It matters in one place: the
  length that \<open>swim_encode_event_header\<close> stores as a native 64-bit integer.
\<close>

section \<open>Primitive types\<close>

definition swim_make_encoder :: "nat \<Rightarrow> nat \<Rightarrow> nat \<Rightarrow> byte list result" where
  "swim_make_encoder sz v buflen = rbind (c_assert (sz \<le> buflen)) (\<lambda>_. Inr (be_bytes sz v))"

definition swim_make_decoder :: "nat \<Rightarrow> byte list \<Rightarrow> (nat \<times> byte list) result" where
  "swim_make_decoder sz buf =
     rbind (c_assert (sz \<le> length buf)) (\<lambda>_. Inr (be_val (take sz buf), drop sz buf))"

definition swim_encode_int16 :: "int \<Rightarrow> nat \<Rightarrow> byte list result" where
  "swim_encode_int16 v = swim_make_encoder 2 (of_signed 16 v)"

definition swim_decode_int16 :: "byte list \<Rightarrow> (int \<times> byte list) result" where
  "swim_decode_int16 buf = rbind (swim_make_decoder 2 buf) (\<lambda>(v, buf). Inr (to_signed 16 v, buf))"

definition swim_encode_int64 :: "int \<Rightarrow> nat \<Rightarrow> byte list result" where
  "swim_encode_int64 v = swim_make_encoder 8 (of_signed 64 v)"

definition swim_decode_int64 :: "byte list \<Rightarrow> (int \<times> byte list) result" where
  "swim_decode_int64 buf = rbind (swim_make_decoder 8 buf) (\<lambda>(v, buf). Inr (to_signed 64 v, buf))"

definition swim_encode_uint16 :: "nat \<Rightarrow> nat \<Rightarrow> byte list result" where
  "swim_encode_uint16 v = swim_make_encoder 2 v"

definition swim_decode_uint16 :: "byte list \<Rightarrow> (nat \<times> byte list) result" where
  "swim_decode_uint16 = swim_make_decoder 2"

definition swim_encode_uint32 :: "32 word \<Rightarrow> nat \<Rightarrow> byte list result" where
  "swim_encode_uint32 v = swim_make_encoder 4 (unat v)"

definition swim_decode_uint32 :: "byte list \<Rightarrow> (32 word \<times> byte list) result" where
  "swim_decode_uint32 buf = rbind (swim_make_decoder 4 buf) (\<lambda>(v, buf). Inr (word_of_nat v, buf))"

lemmas integer_codec_defs [codec_defs] =
  swim_encode_int16_def swim_decode_int16_def swim_encode_int64_def swim_decode_int64_def swim_encode_uint16_def swim_decode_uint16_def swim_encode_uint32_def swim_decode_uint32_def

definition swim_encode_fixlen :: "byte list \<Rightarrow> nat \<Rightarrow> nat \<Rightarrow> byte list result" where
  "swim_encode_fixlen data bytes buflen =
     rbind (c_assert (bytes \<le> buflen)) (\<lambda>_.
     if bytes \<le> length data then Inr (take bytes data) else Inl MemOverflow)"

definition swim_decode_fixlen :: "byte list \<Rightarrow> nat \<Rightarrow> byte list \<Rightarrow> (byte list \<times> byte list) result" where
  "swim_decode_fixlen data bytes buf =
     rbind (c_assert (bytes \<le> length buf)) (\<lambda>_.
     rbind (memcpy data buf bytes) (\<lambda>data. Inr (data, drop bytes buf)))"

definition enc_then :: "(nat \<Rightarrow> byte list result) \<Rightarrow> (nat \<Rightarrow> byte list result) \<Rightarrow> nat \<Rightarrow> byte list result" where
  "enc_then f g buflen =
     rbind (f buflen) (\<lambda>b. rbind (g (buflen - length b)) (\<lambda>c. Inr (b @ c)))"

section \<open>Variable-length data, identifiers, addresses\<close>

text \<open>Conversion of a signed integer to \<open>size_t\<close>.\<close>

definition size_t_of :: "int \<Rightarrow> nat" where
  "size_t_of z = of_signed 64 z"

definition swim_encode_varlen :: "byte list \<Rightarrow> int \<Rightarrow> nat \<Rightarrow> byte list result" where
  "swim_encode_varlen data len buflen =
     rbind (c_assert (size_t_of len \<le> buflen)) (\<lambda>_.
     rbind (c_assert (len < 32767)) (\<lambda>_.
     enc_then (swim_encode_int16 len) (swim_encode_fixlen data (size_t_of len)) buflen))"

definition swim_decode_varlen :: "byte list \<Rightarrow> byte list \<Rightarrow> (byte list \<times> int \<times> byte list) result" where
  "swim_decode_varlen data buf =
     rbind (swim_decode_int16 buf) (\<lambda>(len, rest).
     rbind (c_assert (0 \<le> len \<and> size_t_of len \<le> length buf)) (\<lambda>_.
     rbind (swim_decode_fixlen data (size_t_of len) rest) (\<lambda>(data, rest).
     Inr (data, len, rest))))"

definition uuid_bytes :: "uuid \<Rightarrow> byte list" where
  "uuid_bytes u = be_bytes 16 (unat u)"

definition uuid_of_bytes :: "byte list \<Rightarrow> uuid" where
  "uuid_of_bytes bs = word_of_nat (be_val bs)"

definition swim_encode_uuid :: "uuid \<Rightarrow> nat \<Rightarrow> byte list result" where
  "swim_encode_uuid u = swim_encode_fixlen (uuid_bytes u) 16"

definition swim_decode_uuid :: "uuid \<Rightarrow> byte list \<Rightarrow> (uuid \<times> byte list) result" where
  "swim_decode_uuid old buf =
     rbind (swim_decode_fixlen (uuid_bytes old) 16 buf) (\<lambda>(d, rest). Inr (uuid_of_bytes d, rest))"

definition swim_encode_sockaddr :: "byte list \<Rightarrow> nat \<Rightarrow> nat \<Rightarrow> byte list result" where
  "swim_encode_sockaddr addr addrlen = swim_encode_varlen addr (to_signed 16 (addrlen mod 2 ^ 16))"

definition swim_decode_sockaddr :: "byte list \<Rightarrow> byte list \<Rightarrow> (byte list \<times> nat \<times> byte list) result" where
  "swim_decode_sockaddr addr buf =
     rbind (swim_decode_varlen addr buf) (\<lambda>(addr, bytes, rest). Inr (addr, nat bytes, rest))"

section \<open>Events\<close>

definition native_u64 :: "bool \<Rightarrow> nat \<Rightarrow> byte list" where
  "native_u64 le v = (if le then rev (be_bytes 8 v) else be_bytes 8 v)"

definition swim_encode_event_header :: "bool \<Rightarrow> EventHeader \<Rightarrow> nat \<Rightarrow> byte list result" where
  "swim_encode_event_header le h buflen =
     rbind (enc_then (swim_encode_uint16 SWIM_PROTOCOL_VERSION)
           (enc_then (swim_encode_uint16 (event_code (h_type h)))
           (enc_then (swim_encode_uint32 0)
           (enc_then (swim_encode_int64 (h_time h))
           (enc_then (swim_encode_uuid (h_uuid h))
                     (swim_encode_uint32 (h_incarnation h)))))) buflen) (\<lambda>b.
     Inr (take 4 b @ native_u64 le (length b) @ drop 12 b))"

definition swim_decode_event_header :: "EventHeader \<Rightarrow> byte list \<Rightarrow> (EventHeader \<times> byte list) result" where
  "swim_decode_event_header h buf =
     rbind (swim_decode_uint16 buf) (\<lambda>(protocol_version, buf).
     rbind (swim_decode_uint16 buf) (\<lambda>(ty, buf).
     rbind (swim_decode_uint32 buf) (\<lambda>(event_size, buf).
     rbind (swim_decode_int64 buf) (\<lambda>(t, buf).
     rbind (swim_decode_uuid (h_uuid h) buf) (\<lambda>(u, buf).
     rbind (swim_decode_uint32 buf) (\<lambda>(inc, buf).
     Inr (\<lparr>h_type = event_of_code ty, h_uuid = u, h_time = t, h_incarnation = inc\<rparr>, buf)))))))"

definition swim_encode_event_ack :: "Event \<Rightarrow> nat \<Rightarrow> byte list result" where
  "swim_encode_event_ack ev = swim_encode_uuid (ev_uuid ev)"

definition swim_decode_event_ack :: "Event \<Rightarrow> byte list \<Rightarrow> (Event \<times> byte list) result" where
  "swim_decode_event_ack ev buf =
     rbind (swim_decode_uuid (ev_uuid ev) buf) (\<lambda>(u, buf). Inr (ev\<lparr>ev_uuid := u\<rparr>, buf))"

definition swim_encode_event_join :: "Event \<Rightarrow> nat \<Rightarrow> byte list result" where
  "swim_encode_event_join ev =
     enc_then (swim_encode_uuid (ev_uuid ev)) (swim_encode_sockaddr (join_addr ev) (join_addrlen ev))"

definition swim_decode_event_join :: "Event \<Rightarrow> byte list \<Rightarrow> (Event \<times> byte list) result" where
  "swim_decode_event_join ev buf =
     rbind (swim_decode_uuid (ev_uuid ev) buf) (\<lambda>(u, buf).
     rbind (swim_decode_sockaddr (join_addr ev) buf) (\<lambda>(a, len, buf).
     Inr (ev\<lparr>ev_uuid := u, join_addr := a, join_addrlen := len\<rparr>, buf)))"

definition swim_encode_event_leave :: "Event \<Rightarrow> nat \<Rightarrow> byte list result" where
  "swim_encode_event_leave ev = swim_encode_uuid (ev_uuid ev)"

definition swim_decode_event_leave :: "Event \<Rightarrow> byte list \<Rightarrow> (Event \<times> byte list) result" where
  "swim_decode_event_leave ev buf =
     rbind (swim_decode_uuid (ev_uuid ev) buf) (\<lambda>(u, buf). Inr (ev\<lparr>ev_uuid := u\<rparr>, buf))"

definition swim_encode_event_ping_req :: "Event \<Rightarrow> nat \<Rightarrow> byte list result" where
  "swim_encode_event_ping_req ev = swim_encode_uuid (ev_uuid ev)"

definition swim_decode_event_ping_req :: "Event \<Rightarrow> byte list \<Rightarrow> (Event \<times> byte list) result" where
  "swim_decode_event_ping_req ev buf =
     rbind (swim_decode_uuid (ev_uuid ev) buf) (\<lambda>(u, buf). Inr (ev\<lparr>ev_uuid := u\<rparr>, buf))"

definition swim_encode_info :: "NodeInfo \<Rightarrow> nat \<Rightarrow> byte list result" where
  "swim_encode_info ni =
     enc_then (swim_encode_fixlen (uuid_bytes (n_uuid ni)) 16)
     (enc_then (swim_encode_int64 (n_last_seen ni))
     (enc_then (swim_encode_uint16 (status_code (n_status ni)))
     (enc_then (swim_encode_uint32 (n_incarnation ni))
               (swim_encode_sockaddr (n_addr ni) (n_addrlen ni)))))"

definition swim_decode_info :: "NodeInfo \<Rightarrow> byte list \<Rightarrow> (NodeInfo \<times> byte list) result" where
  "swim_decode_info ni buf =
     rbind (swim_decode_fixlen (uuid_bytes (n_uuid ni)) 16 buf) (\<lambda>(u, buf).
     rbind (swim_decode_int64 buf) (\<lambda>(t, buf).
     rbind (swim_decode_uint16 buf) (\<lambda>(st, buf).
     rbind (swim_decode_uint32 buf) (\<lambda>(inc, buf).
     rbind (swim_decode_sockaddr (n_addr ni) buf) (\<lambda>(a, len, buf).
     Inr (\<lparr>n_uuid = uuid_of_bytes u, n_last_seen = t, n_incarnation = inc,
           n_status = status_of_code st, n_addr = a, n_addrlen = len\<rparr>, buf))))))"

definition swim_encode_gossip :: "NodeInfo list \<Rightarrow> nat \<Rightarrow> nat \<Rightarrow> byte list result" where
  "swim_encode_gossip gs cnt buflen =
     rbind (swim_encode_uint16 cnt buflen) (\<lambda>b.
     for_loop (\<lambda>i acc.
         if i < length gs then
           rbind (swim_encode_info (gs ! i) (buflen - length acc)) (\<lambda>c. Inr (acc @ c))
         else Inl OutOfBounds)
       [0..<cnt] b)"

definition swim_decode_gossip ::
  "NodeInfo list \<Rightarrow> nat \<Rightarrow> byte list \<Rightarrow> (NodeInfo list \<times> nat \<times> byte list option) result" where
  "swim_decode_gossip gs capacity buf =
     rbind (swim_decode_uint16 buf) (\<lambda>(cnt, buf).
     if capacity < cnt then Inr (gs, cnt, None)
     else
       rbind (for_loop (\<lambda>i (gs, buf).
           if i < length gs then
             rbind (swim_decode_info (gs ! i) buf) (\<lambda>(ni, buf). Inr (gs[i := ni], buf))
           else Inl OutOfBounds)
         [0..<cnt] (gs, buf)) (\<lambda>(gs, buf).
       Inr (gs, cnt, Some buf)))"

text \<open>A return value of \<open>-1\<close> is \<open>None\<close>. The decoder has then already overwritten the part of
  the event that comes before the field it rejects.\<close>

definition encode_event_with ::
  "bool \<Rightarrow> Event \<Rightarrow> (nat \<Rightarrow> byte list result) \<Rightarrow> nat \<Rightarrow> byte list option result" where
  "encode_event_with le ev body buflen =
     rbind (enc_then (swim_encode_event_header le (hdr ev))
           (enc_then body (swim_encode_gossip (gossip ev) (gossip_count ev))) buflen) (\<lambda>b. Inr (Some b))"

definition swim_encode_event :: "bool \<Rightarrow> Event \<Rightarrow> nat \<Rightarrow> byte list option result" where
  "swim_encode_event le ev buflen =
     (case h_type (hdr ev) of
        EVENT_TYPE_PING \<Rightarrow> encode_event_with le ev (\<lambda>_. Inr []) buflen
      | EVENT_TYPE_ACK \<Rightarrow> encode_event_with le ev (swim_encode_event_ack ev) buflen
      | EVENT_TYPE_JOIN \<Rightarrow> encode_event_with le ev (swim_encode_event_join ev) buflen
      | EVENT_TYPE_LEAVE \<Rightarrow> encode_event_with le ev (swim_encode_event_leave ev) buflen
      | EVENT_TYPE_PING_REQ \<Rightarrow> encode_event_with le ev (swim_encode_event_ping_req ev) buflen
      | EVENT_TYPE_OTHER _ \<Rightarrow>
          rbind (swim_encode_event_header le (hdr ev) buflen) (\<lambda>_. Inr None))"

definition decode_event_gossip :: "nat \<Rightarrow> Event \<Rightarrow> byte list \<Rightarrow> (Event \<times> nat option) result" where
  "decode_event_gossip buflen ev rest =
     (let consumed = buflen - length rest;
          capacity = size_t_of (int buflen - int consumed - 2) div SIZEOF_NODEINFO mod 2 ^ 16
      in rbind (swim_decode_gossip (gossip ev) capacity rest) (\<lambda>(gs, cnt, r).
         Inr (ev\<lparr>gossip := gs, gossip_count := cnt\<rparr>, map_option (\<lambda>rest. buflen - length rest) r)))"

definition swim_decode_event :: "Event \<Rightarrow> byte list \<Rightarrow> (Event \<times> nat option) result" where
  "swim_decode_event ev buf =
     rbind (swim_decode_event_header (hdr ev) buf) (\<lambda>(h, rest).
     let ev = ev\<lparr>hdr := h\<rparr> in
     case h_type h of
       EVENT_TYPE_PING \<Rightarrow> decode_event_gossip (length buf) ev rest
     | EVENT_TYPE_ACK \<Rightarrow>
         rbind (swim_decode_event_ack ev rest) (\<lambda>(ev, rest). decode_event_gossip (length buf) ev rest)
     | EVENT_TYPE_JOIN \<Rightarrow>
         rbind (swim_decode_event_join ev rest) (\<lambda>(ev, rest). decode_event_gossip (length buf) ev rest)
     | EVENT_TYPE_LEAVE \<Rightarrow>
         rbind (swim_decode_event_leave ev rest) (\<lambda>(ev, rest). decode_event_gossip (length buf) ev rest)
     | EVENT_TYPE_PING_REQ \<Rightarrow>
         rbind (swim_decode_event_ping_req ev rest) (\<lambda>(ev, rest). decode_event_gossip (length buf) ev rest)
     | EVENT_TYPE_OTHER _ \<Rightarrow> Inr (ev, None))"

section \<open>The wire format\<close>

text \<open>
  The reference definition of the format: what the bytes of a datagram are. \<open>wire_time\<close> is the
  time a receiver reads: the store of the 64-bit length over the 32-bit length field also
  overwrites the upper half of the time.
\<close>

definition sockaddr_bytes :: "byte list \<Rightarrow> nat \<Rightarrow> byte list" where
  "sockaddr_bytes a len = be_bytes 2 len @ take len a"

definition info_bytes :: "NodeInfo \<Rightarrow> byte list" where
  "info_bytes ni =
     uuid_bytes (n_uuid ni) @ be_bytes 8 (of_signed 64 (n_last_seen ni)) @
     be_bytes 2 (status_code (n_status ni)) @ be_bytes 4 (unat (n_incarnation ni)) @
     sockaddr_bytes (n_addr ni) (n_addrlen ni)"

definition wire_time :: "bool \<Rightarrow> time_t \<Rightarrow> time_t" where
  "wire_time le t = (if le then 0 else 36 * 2 ^ 32) + t mod 2 ^ 32"

definition header_bytes :: "bool \<Rightarrow> EventHeader \<Rightarrow> byte list" where
  "header_bytes le h =
     be_bytes 2 SWIM_PROTOCOL_VERSION @ be_bytes 2 (event_code (h_type h)) @
     (if le then [36, 0, 0, 0] else [0, 0, 0, 0]) @
     be_bytes 8 (nat (wire_time le (h_time h))) @
     uuid_bytes (h_uuid h) @ be_bytes 4 (unat (h_incarnation h))"

definition body_bytes :: "Event \<Rightarrow> byte list" where
  "body_bytes ev =
     (case h_type (hdr ev) of
        EVENT_TYPE_PING \<Rightarrow> []
      | EVENT_TYPE_JOIN \<Rightarrow> uuid_bytes (ev_uuid ev) @ sockaddr_bytes (join_addr ev) (join_addrlen ev)
      | _ \<Rightarrow> uuid_bytes (ev_uuid ev))"

definition event_bytes :: "bool \<Rightarrow> Event \<Rightarrow> byte list" where
  "event_bytes le ev =
     header_bytes le (hdr ev) @ body_bytes ev @
     be_bytes 2 (gossip_count ev) @ concat (map info_bytes (take (gossip_count ev) (gossip ev)))"

definition known_type :: "EventType \<Rightarrow> bool" where
  "known_type ty \<longleftrightarrow> (\<forall>n. ty \<noteq> EVENT_TYPE_OTHER n)"

text \<open>A node record that the format can carry.\<close>

definition wire_info :: "NodeInfo \<Rightarrow> bool" where
  "wire_info ni \<longleftrightarrow> wf_info ni \<and> status_code (n_status ni) < 2 ^ 16 \<and>
     - (2 ^ 63) \<le> n_last_seen ni \<and> n_last_seen ni < 2 ^ 63"

definition wire_event :: "Event \<Rightarrow> bool" where
  "wire_event ev \<longleftrightarrow> wf_event ev \<and> known_type (h_type (hdr ev)) \<and>
     (\<forall>ni \<in> set (take (gossip_count ev) (gossip ev)). wire_info ni)"

text \<open>The object an event is decoded into: room for the gossip, address objects of full size.\<close>

definition event_slot :: "nat \<Rightarrow> Event \<Rightarrow> bool" where
  "event_slot n ev \<longleftrightarrow> length (join_addr ev) = SIZEOF_STORAGE \<and> n \<le> length (gossip ev) \<and>
     (\<forall>ni \<in> set (gossip ev). length (n_addr ni) = SIZEOF_STORAGE)"

definition same_event :: "Event \<Rightarrow> Event \<Rightarrow> bool" where
  "same_event a b \<longleftrightarrow>
     hdr a = hdr b \<and>
     (h_type (hdr b) \<noteq> EVENT_TYPE_PING \<longrightarrow> ev_uuid a = ev_uuid b) \<and>
     (h_type (hdr b) = EVENT_TYPE_JOIN \<longrightarrow> join_addrlen a = join_addrlen b \<and>
        take (join_addrlen a) (join_addr a) = take (join_addrlen b) (join_addr b)) \<and>
     gossip_count a = gossip_count b \<and>
     list_all2 same_info (take (gossip_count a) (gossip a)) (take (gossip_count b) (gossip b))"

section \<open>Encoders and decoders\<close>

text \<open>
  \<open>emits f b\<close>: the encoder writes exactly \<open>b\<close> if that fits, and stops at an assertion if not; it
  never writes past the end of the buffer. \<open>parses d b a\<close>: the decoder consumes exactly \<open>b\<close>.
\<close>

definition emits :: "(nat \<Rightarrow> byte list result) \<Rightarrow> byte list \<Rightarrow> bool" where
  "emits f b \<longleftrightarrow> (\<forall>n. f n = (if length b \<le> n then Inr b else Inl AssertFailed))"

definition parses :: "(byte list \<Rightarrow> ('a \<times> byte list) result) \<Rightarrow> byte list \<Rightarrow> 'a \<Rightarrow> bool" where
  "parses d b a \<longleftrightarrow> (\<forall>rest. d (b @ rest) = Inr (a, rest))"

lemma emitsD: "emits f b \<Longrightarrow> f n = (if length b \<le> n then Inr b else Inl AssertFailed)"
  by (simp add: emits_def)

lemma parsesD: "parses d b a \<Longrightarrow> d (b @ rest) = Inr (a, rest)"
  by (simp add: parses_def)

lemma emits_then: "emits f b \<Longrightarrow> emits g c \<Longrightarrow> emits (enc_then f g) (b @ c)"
  by (auto simp: emits_def enc_then_def)

lemma emits_nothing: "emits (\<lambda>_. Inr []) []"
  by (simp add: emits_def)

text \<open>
  A codec of one type of field: the bytes of a value, which values it can carry (\<open>ok\<close>), into
  which objects it can decode (\<open>slot\<close>), and when two values are the same to a reader (\<open>eqv\<close>).
  The laws give the round trip of an array of such fields.
\<close>

locale encoder =
  fixes enc :: "'a \<Rightarrow> nat \<Rightarrow> byte list result"
    and bytes :: "'a \<Rightarrow> byte list"
    and ok :: "'a \<Rightarrow> bool"
  assumes enc_emits: "ok a \<Longrightarrow> emits (enc a) (bytes a)"
begin

lemma enc_array:
  assumes "\<forall>a \<in> set (take cnt xs). ok a" "cnt \<le> length xs" "length b \<le> n"
  shows "for_loop (\<lambda>i acc. if i < length xs then
             rbind (enc (xs ! i) (n - length acc)) (\<lambda>c. Inr (acc @ c)) else Inl OutOfBounds) [0..<cnt] b
         = (if length (b @ concat (map bytes (take cnt xs))) \<le> n
            then Inr (b @ concat (map bytes (take cnt xs))) else Inl AssertFailed)"
  using assms
proof (induction cnt)
  case (Suc cnt)
  have "take (Suc cnt) xs = take cnt xs @ [xs ! cnt]"
    using Suc.prems by (simp add: take_Suc_conv_app_nth)
  moreover from this have "enc (xs ! cnt) m = (if length (bytes (xs ! cnt)) \<le> m then Inr (bytes (xs ! cnt)) else Inl AssertFailed)" for m
    using Suc.prems(1) by (intro emitsD enc_emits) simp
  ultimately show ?case
    using Suc by (auto simp: for_loop_append)
qed simp

end

locale codec = encoder enc bytes ok
  for enc :: "'a \<Rightarrow> nat \<Rightarrow> byte list result" and bytes :: "'a \<Rightarrow> byte list" and ok :: "'a \<Rightarrow> bool" +
  fixes dec :: "'a \<Rightarrow> byte list \<Rightarrow> ('a \<times> byte list) result"
    and slot :: "'a \<Rightarrow> bool"
    and eqv :: "'a \<Rightarrow> 'a \<Rightarrow> bool"
  assumes dec_parses: "ok a \<Longrightarrow> slot old \<Longrightarrow> \<exists>a'. parses (dec old) (bytes a) a' \<and> eqv a' a \<and> slot a'"
begin

lemma roundtrip:
  "ok a \<Longrightarrow> slot old \<Longrightarrow> enc a n = Inr b \<Longrightarrow> \<exists>a'. dec old (b @ rest) = Inr (a', rest) \<and> eqv a' a"
  using enc_emits [of a] dec_parses [of a old] by (auto simp: emits_def parses_def split: if_splits)

lemma dec_array:
  assumes "\<forall>a \<in> set xs. ok a" "length xs \<le> length slots" "\<forall>s \<in> set slots. slot s"
  shows "\<exists>ys. for_loop (\<lambda>i (gs, buf). if i < length gs then
             rbind (dec (gs ! i) buf) (\<lambda>(a, buf). Inr (gs[i := a], buf)) else Inl OutOfBounds)
           [0..<length xs] (slots, concat (map bytes xs) @ rest) = Inr (ys @ drop (length xs) slots, rest)
         \<and> list_all2 eqv ys xs \<and> (\<forall>y \<in> set ys. slot y)"
  using assms
proof (induction xs arbitrary: rest rule: rev_induct)
  case (snoc x xs)
  let ?body = "\<lambda>i (gs, buf). if i < length gs then
             rbind (dec (gs ! i) buf) (\<lambda>(a, buf). Inr (gs[i := a], buf)) else Inl OutOfBounds"
  let ?n = "length xs"
  from snoc obtain ys where
    ys: "for_loop ?body [0..<?n] (slots, concat (map bytes xs) @ bytes x @ rest)
           = Inr (ys @ drop ?n slots, bytes x @ rest)"
    "list_all2 eqv ys xs" "\<forall>y \<in> set ys. slot y" by fastforce
  have ly: "length ys = ?n" using ys(2) by (rule list_all2_lengthD)
  have n: "?n < length slots" using snoc.prems(2) by simp
  then have hd: "drop ?n slots = slots ! ?n # drop (Suc ?n) slots" by (simp add: Cons_nth_drop_Suc)
  obtain a where a: "parses (dec (slots ! ?n)) (bytes x) a" "eqv a x" "slot a"
    using dec_parses [of x "slots ! ?n"] snoc.prems n by auto
  have "for_loop ?body [0..<length (xs @ [x])] (slots, concat (map bytes (xs @ [x])) @ rest)
        = Inr ((ys @ [a]) @ drop (Suc ?n) slots, rest)"
    using ys(1) a(1) n hd by (auto simp: for_loop_append nth_append parsesD ly [symmetric])
  with ys(2,3) a(2,3) show ?case
    by (intro exI [of _ "ys @ [a]"]) (simp add: list_all2_appendI)
qed simp

end

section \<open>Codecs of the fields\<close>

lemma emits_make_encoder: "emits (swim_make_encoder sz v) (be_bytes sz v)"
  by (simp add: emits_def swim_make_encoder_def c_assert_def)

lemma make_decoder_append: "swim_make_decoder sz (be_bytes sz v @ rest) = Inr (v mod 256 ^ sz, rest)"
  by (simp add: swim_make_decoder_def be_val_be_bytes)

lemma length_uuid_bytes [simp]: "length (uuid_bytes u) = 16"
  by (simp add: uuid_bytes_def)

lemma uuid_of_uuid_bytes [simp]: "uuid_of_bytes (uuid_bytes u) = u"
proof -
  have "unat u < 256 ^ 16" using unsigned_less [of u, where 'a = nat] by simp
  then show ?thesis by (simp add: uuid_of_bytes_def uuid_bytes_def)
qed

interpretation u16: codec swim_encode_uint16 "be_bytes 2" "\<lambda>v. v < 2 ^ 16" "\<lambda>_. swim_decode_uint16" "\<lambda>_. True" "(=)"
  by unfold_locales
    (auto simp: codec_defs emits_make_encoder parses_def make_decoder_append)

interpretation u32: codec swim_encode_uint32 "\<lambda>v. be_bytes 4 (unat v)" "\<lambda>_. True" "\<lambda>_. swim_decode_uint32" "\<lambda>_. True" "(=)"
proof unfold_locales
  fix a :: "32 word"
  have "unat a < 256 ^ 4" using unsigned_less [of a, where 'a = nat] by simp
  then show "\<exists>a'. parses swim_decode_uint32 (be_bytes 4 (unat a)) a' \<and> a' = a \<and> True"
    by (simp add: parses_def codec_defs make_decoder_append)
qed (simp add: codec_defs emits_make_encoder)

interpretation i16: codec swim_encode_int16 "\<lambda>v. be_bytes 2 (of_signed 16 v)"
    "\<lambda>v. - (2 ^ 15) \<le> v \<and> v < 2 ^ 15" "\<lambda>_. swim_decode_int16" "\<lambda>_. True" "(=)"
  using of_signed_less [of 16]
  by unfold_locales
    (auto simp: codec_defs emits_make_encoder parses_def make_decoder_append
       intro!: to_of_signed)

interpretation i64: codec swim_encode_int64 "\<lambda>v. be_bytes 8 (of_signed 64 v)"
    "\<lambda>v. - (2 ^ 63) \<le> v \<and> v < 2 ^ 63" "\<lambda>_. swim_decode_int64" "\<lambda>_. True" "(=)"
  using of_signed_less [of 64]
  by unfold_locales
    (auto simp: codec_defs emits_make_encoder parses_def make_decoder_append
       intro!: to_of_signed)

lemma emits_fixlen: "k \<le> length d \<Longrightarrow> emits (swim_encode_fixlen d k) (take k d)"
  by (simp add: emits_def swim_encode_fixlen_def c_assert_def)

lemma decode_fixlen_append:
  "length b = k \<Longrightarrow> k \<le> length d \<Longrightarrow> swim_decode_fixlen d k (b @ rest) = Inr (b @ drop k d, rest)"
  by (simp add: swim_decode_fixlen_def memcpy_ok)

interpretation uu: codec swim_encode_uuid uuid_bytes "\<lambda>_. True" swim_decode_uuid "\<lambda>_. True" "(=)"
  using emits_fixlen [of 16 "uuid_bytes u" for u]
  by unfold_locales (auto simp: swim_encode_uuid_def parses_def swim_decode_uuid_def decode_fixlen_append)

lemma size_t_of_nat: "n < 2 ^ 15 \<Longrightarrow> size_t_of (int n) = n"
  by (simp add: size_t_of_def of_signed_def nat_mod_distrib)

lemma emits_sockaddr:
  assumes "n \<le> length a" "n \<le> SIZEOF_STORAGE"
  shows "emits (swim_encode_sockaddr a n) (sockaddr_bytes a n)"
proof -
  have n: "to_signed 16 (n mod 2 ^ 16) = int n" "size_t_of (int n) = n" "of_signed 16 (int n) = n"
    using assms by (simp_all add: to_signed_nonneg size_t_of_nat of_signed_def nat_mod_distrib)
  have "emits (enc_then (swim_encode_int16 (int n)) (swim_encode_fixlen a n)) (sockaddr_bytes a n)"
    unfolding sockaddr_bytes_def using assms n
    by (intro emits_then emits_fixlen) (simp_all add: codec_defs emits_make_encoder)
  then show ?thesis
    using assms n by (auto simp: emits_def swim_encode_sockaddr_def swim_encode_varlen_def sockaddr_bytes_def c_assert_def)
qed

lemma decode_sockaddr_append:
  assumes "n \<le> length a" "n \<le> SIZEOF_STORAGE" "length d = SIZEOF_STORAGE"
  shows "swim_decode_sockaddr d (sockaddr_bytes a n @ rest) = Inr (take n a @ drop n d, n, rest)"
proof -
  have n: "to_signed 16 n = int n" "size_t_of (int n) = n"
    using assms by (simp_all add: to_signed_nonneg size_t_of_nat)
  show ?thesis
    using assms n
    by (simp add: swim_decode_sockaddr_def swim_decode_varlen_def sockaddr_bytes_def codec_defs
        make_decoder_append decode_fixlen_append)
qed

lemma length_sockaddr_bytes [simp]: "n \<le> length a \<Longrightarrow> length (sockaddr_bytes a n) = 2 + n"
  by (simp add: sockaddr_bytes_def)

interpretation info_enc: encoder swim_encode_info info_bytes wf_info
proof unfold_locales
  fix ni assume "wf_info ni"
  then have "emits (swim_encode_sockaddr (n_addr ni) (n_addrlen ni)) (sockaddr_bytes (n_addr ni) (n_addrlen ni))"
    by (intro emits_sockaddr) (auto simp: wf_info_def)
  then show "emits (swim_encode_info ni) (info_bytes ni)"
    unfolding swim_encode_info_def info_bytes_def
    using emits_fixlen [of 16 "uuid_bytes (n_uuid ni)"]
    by (intro emits_then)
      (simp_all add: codec_defs emits_make_encoder)
qed

interpretation node_codec: codec swim_encode_info info_bytes wire_info swim_decode_info
    "\<lambda>ni. length (n_addr ni) = SIZEOF_STORAGE" same_info
proof unfold_locales
  fix ni assume ok: "wire_info ni"
  then have a: "n_addrlen ni \<le> length (n_addr ni)" "n_addrlen ni \<le> SIZEOF_STORAGE"
    by (auto simp: wire_info_def wf_info_def)
  show "emits (swim_encode_info ni) (info_bytes ni)"
    using ok info_enc.enc_emits by (simp add: wire_info_def)
  fix old :: NodeInfo assume slot: "length (n_addr old) = SIZEOF_STORAGE"
  have "unat (n_incarnation ni) < 256 ^ 4" using unsigned_less [of "n_incarnation ni", where 'a = nat] by simp
  moreover have "status_code (n_status ni) < 256 ^ 2" "of_signed 64 (n_last_seen ni) < 256 ^ 8"
    using ok of_signed_less [of 64 "n_last_seen ni"] by (simp_all add: wire_info_def)
  moreover have "to_signed 64 (of_signed 64 (n_last_seen ni)) = n_last_seen ni"
    using ok by (intro to_of_signed) (auto simp: wire_info_def)
  ultimately have "parses (swim_decode_info old) (info_bytes ni)
      (ni\<lparr>n_addr := take (n_addrlen ni) (n_addr ni) @ drop (n_addrlen ni) (n_addr old)\<rparr>)"
    using slot a
    by (simp add: parses_def swim_decode_info_def info_bytes_def decode_fixlen_append codec_defs
        make_decoder_append decode_sockaddr_append)
  then show "\<exists>a'. parses (swim_decode_info old) (info_bytes ni) a' \<and> same_info a' ni \<and>
               length (n_addr a') = SIZEOF_STORAGE"
    using slot a by (auto simp: same_info_def)
qed

section \<open>Events\<close>

lemma length_header_bytes [simp]: "length (header_bytes le h) = 36"
  by (simp add: header_bytes_def)

lemma be_bytes_36:
  "be_bytes 4 0 = [0, 0, 0, 0]" "be_bytes 4 36 = [0, 0, 0, 36]" "be_bytes 8 36 = [0, 0, 0, 0, 0, 0, 0, 36]"
  by (simp_all add: be_bytes_numeral)

lemma wire_time_bytes:
  "be_bytes 8 (nat (wire_time le t)) = (if le then [0, 0, 0, 0] else [0, 0, 0, 36]) @ be_bytes 4 (of_signed 64 t)"
proof -
  have pos: "0 \<le> t mod 4294967296" "t mod 4294967296 < 4294967296" by simp_all
  have w: "nat (wire_time le t) = (if le then 0 else 36 * 4294967296) + nat (t mod 4294967296)"
    using pos by (simp add: wire_time_def nat_add_distrib)
  have hi: "nat (wire_time le t) div 256 ^ 4 = (if le then 0 else 36)"
    using pos unfolding w by (auto simp: nat_less_iff)
  have "nat (t mod 18446744073709551616) mod 4294967296 = nat (t mod 18446744073709551616 mod 4294967296)"
    by (simp add: nat_mod_distrib)
  also have "\<dots> = nat (t mod 4294967296)" by (simp add: mod_mod_cancel)
  finally have "of_signed 64 t mod 256 ^ 4 = nat (t mod 4294967296)" by (simp add: of_signed_def)
  moreover have "nat (wire_time le t) mod 256 ^ 4 = nat (t mod 4294967296)"
  proof -
    have "(154618822656 + x) mod 4294967296 = x" if "x < 4294967296" for x :: nat
      using that mod_mult_self1 [of x 36 4294967296] by (simp add: add.commute)
    then show ?thesis using pos unfolding w by (simp add: nat_less_iff)
  qed
  ultimately have "nat (wire_time le t) mod 256 ^ 4 = of_signed 64 t mod 256 ^ 4" by simp
  then have lo: "be_bytes 4 (nat (wire_time le t)) = be_bytes 4 (of_signed 64 t)"
    by (metis be_bytes_mod dvd_refl)
  have "be_bytes (4 + 4) (nat (wire_time le t)) = be_bytes 4 (if le then 0 else 36) @ be_bytes 4 (of_signed 64 t)"
    unfolding be_bytes_append hi lo ..
  then show ?thesis by (simp add: be_bytes_36 split: if_splits)
qed

lemma emits_header: "emits (swim_encode_event_header le h) (header_bytes le h)"
proof -
  let ?b = "be_bytes 2 1 @ be_bytes 2 (event_code (h_type h)) @ be_bytes 4 0 @
            be_bytes 8 (of_signed 64 (h_time h)) @ uuid_bytes (h_uuid h) @ be_bytes 4 (unat (h_incarnation h))"
  have enc: "emits (enc_then (swim_encode_uint16 1)
           (enc_then (swim_encode_uint16 (event_code (h_type h)))
           (enc_then (swim_encode_uint32 0)
           (enc_then (swim_encode_int64 (h_time h))
           (enc_then (swim_encode_uuid (h_uuid h))
                     (swim_encode_uint32 (h_incarnation h))))))) ?b"
    by (intro emits_then uu.enc_emits u32.enc_emits [of 0, simplified] u32.enc_emits)
      (simp_all add: codec_defs emits_make_encoder)
  have "be_bytes (4 + 4) (of_signed 64 (h_time h))
        = be_bytes 4 (of_signed 64 (h_time h) div 256 ^ 4) @ be_bytes 4 (of_signed 64 (h_time h))"
    by (rule be_bytes_append)
  then have t: "be_bytes 8 (of_signed 64 (h_time h))
        = be_bytes 4 (of_signed 64 (h_time h) div 256 ^ 4) @ be_bytes 4 (of_signed 64 (h_time h))" by simp
  have nat36: "native_u64 le 36 = (if le then [36, 0, 0, 0] else [0, 0, 0, 0]) @ (if le then [0, 0, 0, 0] else [0, 0, 0, 36])"
    by (simp add: native_u64_def be_bytes_36)
  have "take 4 ?b @ native_u64 le (length ?b) @ drop 12 ?b = header_bytes le h"
    by (simp add: header_bytes_def wire_time_bytes nat36 t)
  moreover have "length ?b = 36" by simp
  ultimately show ?thesis
    using emitsD [OF enc] by (simp add: emits_def swim_encode_event_header_def)
qed

lemma parses_header:
  assumes "known_type (h_type h)"
  shows "parses (swim_decode_event_header old) (header_bytes le h) (h\<lparr>h_time := wire_time le (h_time h)\<rparr>)"
proof -
  have ty: "event_code (h_type h) < 256 ^ 2" "event_of_code (event_code (h_type h)) = h_type h"
    using assms by (cases "h_type h"; simp add: known_type_def event_of_code_def)+
  have "0 \<le> wire_time le (h_time h)" "wire_time le (h_time h) < 37 * 2 ^ 32"
    by (simp_all add: wire_time_def) (smt (verit) pos_mod_bound)+
  then have t: "nat (wire_time le (h_time h)) < 256 ^ 8"
    "to_signed 64 (nat (wire_time le (h_time h))) = wire_time le (h_time h)"
    by (simp_all add: to_signed_def nat_less_iff)
  have inc: "unat (h_incarnation h) < 256 ^ 4" using unsigned_less [of "h_incarnation h", where 'a = nat] by simp
  have u32: "swim_make_decoder 4 ((if le then [36, 0, 0, 0] else [0, 0, 0, 0]) @ rest)
             = Inr (be_val (if le then [36, 0, 0, 0] else [0, 0, 0, 0]), rest)" for rest
    by (simp add: swim_make_decoder_def)
  show ?thesis
    unfolding parses_def swim_decode_event_header_def header_bytes_def append_assoc
    using ty t inc
    by (simp add: codec_defs make_decoder_append
        u32 swim_decode_uuid_def decode_fixlen_append)
qed

lemma emits_gossip:
  assumes "\<forall>ni \<in> set (take cnt gs). wf_info ni" "cnt \<le> length gs"
  shows "emits (swim_encode_gossip gs cnt) (be_bytes 2 cnt @ concat (map info_bytes (take cnt gs)))"
  unfolding emits_def
proof
  fix n
  show "swim_encode_gossip gs cnt n =
    (if length (be_bytes 2 cnt @ concat (map info_bytes (take cnt gs))) \<le> n
     then Inr (be_bytes 2 cnt @ concat (map info_bytes (take cnt gs))) else Inl AssertFailed)"
  proof (cases "2 \<le> n")
    case True
    then have "swim_encode_uint16 cnt n = Inr (be_bytes 2 cnt)"
      by (simp add: codec_defs swim_make_encoder_def)
    then show ?thesis
      using info_enc.enc_array [OF assms, of "be_bytes 2 cnt" n] True by (simp add: swim_encode_gossip_def)
  next
    case False
    then show ?thesis by (simp add: swim_encode_gossip_def codec_defs swim_make_encoder_def)
  qed
qed

lemma swim_encode_event_eq:
  assumes "wf_event ev" "known_type (h_type (hdr ev))"
  shows "swim_encode_event le ev n =
    (if length (event_bytes le ev) \<le> n then Inr (Some (event_bytes le ev)) else Inl AssertFailed)"
proof -
  let ?g = "be_bytes 2 (gossip_count ev) @ concat (map info_bytes (take (gossip_count ev) (gossip ev)))"
  have g: "emits (swim_encode_gossip (gossip ev) (gossip_count ev)) ?g"
    using assms by (intro emits_gossip) (auto simp: wf_event_def)
  have j: "emits (enc_then (swim_encode_uuid (ev_uuid ev)) (swim_encode_sockaddr (join_addr ev) (join_addrlen ev)))
             (uuid_bytes (ev_uuid ev) @ sockaddr_bytes (join_addr ev) (join_addrlen ev))"
    if "h_type (hdr ev) = EVENT_TYPE_JOIN"
    using assms that by (intro emits_then uu.enc_emits emits_sockaddr) (auto simp: wf_event_def)
  have w: "encode_event_with le ev body n = (if length (header_bytes le (hdr ev) @ b @ ?g) \<le> n
             then Inr (Some (header_bytes le (hdr ev) @ b @ ?g)) else Inl AssertFailed)" if "emits body b" for body b
    using emitsD [OF emits_then [OF emits_header emits_then [OF that g]], of le "hdr ev" n]
    by (simp add: encode_event_with_def)
  show ?thesis
    using assms w [OF emits_nothing] w [OF uu.enc_emits [of "ev_uuid ev"]]
      w [OF j]
    by (cases "h_type (hdr ev)")
      (simp_all add: swim_encode_event_def event_bytes_def body_bytes_def known_type_def
        swim_encode_event_ack_def swim_encode_event_join_def swim_encode_event_leave_def swim_encode_event_ping_req_def)
qed

lemma length_info_bytes: "wf_info ni \<Longrightarrow> length (info_bytes ni) = 32 + n_addrlen ni"
  by (simp add: info_bytes_def wf_info_def)

lemma length_infos:
  "\<forall>ni \<in> set xs. wf_info ni \<Longrightarrow> length (concat (map info_bytes xs)) \<le> 160 * length xs"
  by (induction xs) (auto simp: length_info_bytes wf_info_def)

lemma length_body_bytes: "wf_event ev \<Longrightarrow> length (body_bytes ev) \<le> 146"
  by (auto simp: body_bytes_def wf_event_def split: EventType.split)

lemma length_event_bytes:
  assumes "wf_event ev" "gossip_count ev \<le> 11"
  shows "length (event_bytes le ev) \<le> 1944"
  using length_body_bytes [OF assms(1)] length_infos [of "take (gossip_count ev) (gossip ev)"] assms
  by (auto simp: event_bytes_def wf_event_def)

lemma decode_gossip_append:
  assumes "\<forall>ni \<in> set xs. wire_info ni" "length xs \<le> capacity" "length xs < 2 ^ 16"
    and "length xs \<le> length slots" "\<forall>s \<in> set slots. length (n_addr s) = SIZEOF_STORAGE"
  shows "\<exists>ys. swim_decode_gossip slots capacity (be_bytes 2 (length xs) @ concat (map info_bytes xs) @ rest)
           = Inr (ys @ drop (length xs) slots, length xs, Some rest)
         \<and> list_all2 same_info ys xs \<and> (\<forall>y \<in> set ys. length (n_addr y) = SIZEOF_STORAGE)"
proof -
  have "length xs mod 256\<^sup>2 = length xs" using assms(3) by simp
  then show ?thesis
    using node_codec.dec_array [OF assms(1,4,5), of rest] assms(2)
    by (auto simp: swim_decode_gossip_def codec_defs make_decoder_append)
qed

lemma gossip_capacity:
  assumes "2 \<le> n" "n \<le> 2048"
  shows "size_t_of (int n - 2) div SIZEOF_NODEINFO mod 2 ^ 16 = (n - 2) div SIZEOF_NODEINFO"
proof -
  have "size_t_of (int n - 2) = n - 2"
    using assms size_t_of_nat [of "n - 2"] by (simp add: of_nat_diff)
  moreover have "(n - 2) div SIZEOF_NODEINFO < 2 ^ 16" using assms by simp
  ultimately show ?thesis by simp
qed

lemma decode_event_gossip_append:
  assumes xs: "\<forall>ni \<in> set xs. wire_info ni" "length xs \<le> 11" "length xs \<le> length (gossip ev)"
    and slots: "\<forall>s \<in> set (gossip ev). length (n_addr s) = SIZEOF_STORAGE"
    and buf: "buf = be_bytes 2 (length xs) @ concat (map info_bytes xs) @ rest"
    and len: "1866 \<le> length buf" "length buf \<le> 2048"
  shows "\<exists>ys. decode_event_gossip 2048 ev buf =
             Inr (ev\<lparr>gossip := ys @ drop (length xs) (gossip ev), gossip_count := length xs\<rparr>, Some (2048 - length rest))
           \<and> list_all2 same_info ys xs"
proof -
  have "11 \<le> (length buf - 2) div SIZEOF_NODEINFO" using len by simp
  moreover have "int 2048 - int (2048 - length buf) - 2 = int (length buf) - 2" using len by simp
  ultimately show ?thesis
    using decode_gossip_append [OF xs(1) _ _ xs(3) slots, of "(length buf - 2) div SIZEOF_NODEINFO" rest] xs(2) len
      gossip_capacity [of "length buf"]
    by (auto simp: decode_event_gossip_def Let_def buf [symmetric])
qed

lemma swim_decode_event_append:
  assumes ev: "wire_event ev" "gossip_count ev \<le> 11" and slot: "event_slot 11 old"
    and len: "length (event_bytes le ev @ rest) = 2048"
  shows "\<exists>ev'. swim_decode_event old (event_bytes le ev @ rest) = Inr (ev', Some (length (event_bytes le ev)))
           \<and> same_event ev' (ev\<lparr>hdr := (hdr ev)\<lparr>h_time := wire_time le (h_time (hdr ev))\<rparr>\<rparr>)"
proof -
  let ?xs = "take (gossip_count ev) (gossip ev)" and ?h = "(hdr ev)\<lparr>h_time := wire_time le (h_time (hdr ev))\<rparr>"
  let ?g = "be_bytes 2 (gossip_count ev) @ concat (map info_bytes ?xs) @ rest"
  have wf: "known_type (h_type (hdr ev))" "\<forall>ni \<in> set ?xs. wire_info ni" "length ?xs = gossip_count ev"
    "h_type (hdr ev) = EVENT_TYPE_JOIN \<Longrightarrow> join_addrlen ev \<le> length (join_addr ev) \<and> join_addrlen ev \<le> SIZEOF_STORAGE"
    using ev(1) by (auto simp: wire_event_def wf_event_def)
  have lens: "length (body_bytes ev) \<le> 146" "length (body_bytes ev @ ?g) = 2012"
    "length (event_bytes le ev) = 2048 - length rest"
    using length_body_bytes [of ev] ev(1) len by (auto simp: event_bytes_def wire_event_def)
  have split: "event_bytes le ev @ rest = header_bytes le (hdr ev) @ body_bytes ev @ ?g" by (simp add: event_bytes_def)
  have hdr: "swim_decode_event_header (hdr old) (event_bytes le ev @ rest) = Inr (?h, body_bytes ev @ ?g)"
    unfolding split by (rule parsesD [OF parses_header [OF wf(1)]])
  have u: "swim_decode_uuid o' (uuid_bytes v @ tl) = Inr (v, tl)" for o' v tl
    by (simp add: swim_decode_uuid_def decode_fixlen_append)
  have g: "\<exists>ys. decode_event_gossip 2048 e ?g =
             Inr (e\<lparr>gossip := ys @ drop (gossip_count ev) (gossip e), gossip_count := gossip_count ev\<rparr>, Some (2048 - length rest))
           \<and> list_all2 same_info ys ?xs" if "gossip e = gossip old" for e
    using decode_event_gossip_append [OF wf(2), of e ?g rest] wf(3) ev(2) slot that lens(1,2)
    by (auto simp: event_slot_def)
  have ys: "length ys = gossip_count ev" if "list_all2 same_info ys ?xs" for ys
    using list_all2_lengthD [OF that] wf(3) by simp
  note decs = swim_decode_event_ack_def swim_decode_event_join_def swim_decode_event_leave_def swim_decode_event_ping_req_def
  obtain tail where dec: "swim_decode_event old (event_bytes le ev @ rest) = decode_event_gossip 2048 tail ?g"
    "hdr tail = ?h" "gossip tail = gossip old" "h_type (hdr ev) \<noteq> EVENT_TYPE_PING \<longrightarrow> ev_uuid tail = ev_uuid ev"
    "h_type (hdr ev) = EVENT_TYPE_JOIN \<longrightarrow> join_addrlen tail = join_addrlen ev \<and>
       take (join_addrlen ev) (join_addr tail) = take (join_addrlen ev) (join_addr ev)"
  proof -
    have "\<exists>tail. swim_decode_event old (event_bytes le ev @ rest) = decode_event_gossip 2048 tail ?g \<and>
      hdr tail = ?h \<and> gossip tail = gossip old \<and> (h_type (hdr ev) \<noteq> EVENT_TYPE_PING \<longrightarrow> ev_uuid tail = ev_uuid ev) \<and>
      (h_type (hdr ev) = EVENT_TYPE_JOIN \<longrightarrow> join_addrlen tail = join_addrlen ev \<and>
       take (join_addrlen ev) (join_addr tail) = take (join_addrlen ev) (join_addr ev))"
      using wf slot len
      by (cases "h_type (hdr ev)")
        (auto simp: swim_decode_event_def hdr Let_def decs u body_bytes_def known_type_def decode_sockaddr_append event_slot_def)
    then show ?thesis using that by blast
  qed
  obtain r where r: "decode_event_gossip 2048 tail ?g =
             Inr (tail\<lparr>gossip := r @ drop (gossip_count ev) (gossip tail), gossip_count := gossip_count ev\<rparr>, Some (2048 - length rest))"
    "list_all2 same_info r ?xs" using g [OF dec(3)] by blast
  show ?thesis
    using dec r ys [OF r(2)] lens(3) by (auto simp: same_event_def)
qed

section \<open>Decoding arbitrary bytes\<close>

text \<open>
  What the decoders do on a buffer of any content: an assertion fails, an address does not fit
  into its object, or a well-formed value is returned. No array is indexed out of range.
\<close>

abbreviation dec_error :: "cerr \<Rightarrow> bool" where
  "dec_error e \<equiv> e = AssertFailed \<or> e = MemOverflow"

lemma wp_make_decoder: "wp dec_error (swim_make_decoder sz buf) (\<lambda>(v, rest). length rest = length buf - sz \<and> sz \<le> length buf)"
  by (simp add: swim_make_decoder_def)

lemma wp_decode_fixlen:
  "wp dec_error (swim_decode_fixlen d k buf)
     (\<lambda>(d', rest). length d' = length d \<and> k \<le> length d \<and> length rest = length buf - k \<and> k \<le> length buf)"
  by (simp add: swim_decode_fixlen_def memcpy_def)

lemma wp_decode_int16:
  "wp dec_error (swim_decode_int16 buf) (\<lambda>(v, rest). v < 2 ^ 15 \<and> length rest \<le> length buf)"
  using be_val_less [of "take 2 buf"]
  by (auto simp: codec_defs swim_make_decoder_def to_signed_def)

lemma wp_decode_sockaddr:
  assumes "length d = SIZEOF_STORAGE"
  shows "wp dec_error (swim_decode_sockaddr d buf)
     (\<lambda>(a, n, rest). length a = SIZEOF_STORAGE \<and> n \<le> SIZEOF_STORAGE \<and> length rest \<le> length buf)"
  unfolding swim_decode_sockaddr_def swim_decode_varlen_def wp_rbind
proof (rule wp_mono [OF wp_decode_int16], goal_cases)
  case (1 a)
  obtain len rest where a: "a = (len, rest)" by (cases a)
  have fl: "wp dec_error (swim_decode_fixlen d (size_t_of len) rest)
     (\<lambda>(d', rest'). length d' = length d \<and> size_t_of len \<le> length d \<and> length rest' \<le> length buf)"
    using 1 a by (intro wp_mono [OF wp_decode_fixlen]) auto
  have "size_t_of len = nat len" if "0 \<le> len"
    using that 1 a size_t_of_nat [of "nat len"] by (simp add: nat_less_iff)
  then show ?case
    using a assms fl by (auto elim!: wp_mono)
qed simp

lemma wp_decode_uuid:
  "wp dec_error (swim_decode_uuid old buf) (\<lambda>(_, rest). length rest \<le> length buf)"
  unfolding swim_decode_uuid_def wp_rbind by (rule wp_mono [OF wp_decode_fixlen]) auto

lemma wp_decode_prims:
  "wp dec_error (swim_decode_int64 buf) (\<lambda>(_, rest). length rest \<le> length buf)"
  "wp dec_error (swim_decode_uint16 buf) (\<lambda>(_, rest). length rest \<le> length buf \<and> 2 \<le> length buf)"
  "wp dec_error (swim_decode_uint32 buf) (\<lambda>(_, rest). length rest \<le> length buf)"
  by (simp_all add: codec_defs swim_make_decoder_def)

lemma wp_decode_info:
  assumes "length (n_addr old) = SIZEOF_STORAGE"
  shows "wp dec_error (swim_decode_info old buf) (\<lambda>(ni, rest). wf_info ni \<and> length rest \<le> length buf)"
  unfolding swim_decode_info_def wp_rbind
  by (rule wp_mono [OF wp_decode_fixlen], clarsimp,
      rule wp_mono [OF wp_decode_prims(1)], clarsimp,
      rule wp_mono [OF wp_decode_prims(2)], clarsimp,
      rule wp_mono [OF wp_decode_prims(3)], clarsimp,
      rule wp_mono [OF wp_decode_sockaddr [OF assms]])
    (auto simp: wf_info_def)

lemma wp_decode_header:
  "wp dec_error (swim_decode_event_header h buf) (\<lambda>(_, rest). length rest = length buf - 36)"
  by (simp add: swim_decode_event_header_def codec_defs
      swim_make_decoder_def swim_decode_uuid_def swim_decode_fixlen_def memcpy_def)

lemma wp_decode_gossip:
  assumes slots: "\<forall>ni \<in> set gs. length (n_addr ni) = SIZEOF_STORAGE"
    and cap: "2 \<le> length buf \<Longrightarrow> capacity \<le> length gs"
  shows "wp dec_error (swim_decode_gossip gs capacity buf) (\<lambda>(gs', cnt, r).
           length gs' = length gs \<and> (\<forall>ni \<in> set gs'. length (n_addr ni) = SIZEOF_STORAGE) \<and>
           (\<forall>rest. r = Some rest \<longrightarrow> length rest \<le> length buf \<and> cnt \<le> capacity \<and> (\<forall>ni \<in> set (take cnt gs'). wf_info ni)))"
  unfolding swim_decode_gossip_def wp_rbind
proof (rule wp_mono [OF wp_decode_prims(2)], goal_cases)
  case (1 a)
  obtain cnt rest where a: "a = (cnt, rest)" by (cases a)
  with 1 cap have rest: "length rest \<le> length buf" "capacity \<le> length gs" by auto
  let ?body = "\<lambda>i (gs, buf). if i < length gs then
     rbind (swim_decode_info (gs ! i) buf) (\<lambda>(ni, buf). Inr (gs[i := ni], buf)) else Inl OutOfBounds"
  let ?I = "\<lambda>k (gs', rest' :: byte list). length gs' = length gs \<and> (\<forall>ni \<in> set gs'. length (n_addr ni) = SIZEOF_STORAGE) \<and>
     length rest' \<le> length buf \<and> (\<forall>ni \<in> set (take k gs'). wf_info ni)"
  have loop: "wp dec_error (for_loop ?body [0..<cnt] (gs, rest)) (?I cnt)" if "cnt \<le> capacity"
  proof (rule wp_for_upt)
    show "?I 0 (gs, rest)" using slots rest by simp
    fix k t assume k: "k < cnt" and I: "?I k t"
    obtain xs r where t: "t = (xs, r)" by (cases t)
    have kl: "k < length xs" using k that rest I t by simp
    then have "length (n_addr (xs ! k)) = SIZEOF_STORAGE" using I t by auto
    from wp_decode_info [OF this, of r] show "wp dec_error (?body k t) (?I (Suc k))"
      using I t kl
      by (auto simp: take_Suc_conv_app_nth wf_info_def elim!: wp_mono dest!: set_update_subset_insert [THEN subsetD])
  qed
  show ?case using a loop slots by (auto elim!: wp_mono)
qed simp

lemma wp_decode_event_gossip:
  assumes slot: "event_slot 11 ev" and len: "length rest \<le> 2012"
    and ty: "known_type (h_type (hdr ev))" "h_type (hdr ev) = EVENT_TYPE_JOIN \<Longrightarrow> join_addrlen ev \<le> SIZEOF_STORAGE"
  shows "wp dec_error (decode_event_gossip 2048 ev rest) (\<lambda>(ev', r). event_slot 11 ev' \<and>
           (\<forall>n. r = Some n \<longrightarrow> n \<le> 2048 \<and> wf_event ev' \<and> known_type (h_type (hdr ev')) \<and> gossip_count ev' \<le> 11))"
proof -
  let ?cap = "size_t_of (int (length rest) - 2) div SIZEOF_NODEINFO mod 2 ^ 16"
  have "(length rest - 2) div SIZEOF_NODEINFO \<le> 11" using len by linarith
  then have c: "?cap \<le> 11" if "2 \<le> length rest"
    using gossip_capacity [of "length rest"] len that by simp
  have g: "wp dec_error (swim_decode_gossip (gossip ev) ?cap rest) (\<lambda>(gs', cnt, r).
           length gs' = length (gossip ev) \<and> (\<forall>ni \<in> set gs'. length (n_addr ni) = SIZEOF_STORAGE) \<and>
           (\<forall>rest'. r = Some rest' \<longrightarrow> length rest' \<le> length rest \<and> cnt \<le> ?cap \<and> (\<forall>ni \<in> set (take cnt gs'). wf_info ni)))"
    using slot c by (intro wp_decode_gossip) (auto simp: event_slot_def)
  have two: "2 \<le> length rest" if "swim_decode_gossip (gossip ev) k rest = Inr x" for k x
    using that by (auto simp: swim_decode_gossip_def codec_defs swim_make_decoder_def)
  have "int 2048 - int (2048 - length rest) - 2 = int (length rest) - 2" using len by simp
  then show ?thesis
    using g slot ty len c two
    by (cases "swim_decode_gossip (gossip ev) ?cap rest")
      (auto simp: decode_event_gossip_def Let_def event_slot_def wf_event_def)
qed

lemma event_slot_upd [simp]:
  "event_slot n (ev\<lparr>hdr := h\<rparr>) = event_slot n ev"
  "event_slot n (ev\<lparr>ev_uuid := u\<rparr>) = event_slot n ev"
  "event_slot n (ev\<lparr>join_addrlen := k\<rparr>) = event_slot n ev"
  "length a = length (join_addr ev) \<Longrightarrow> event_slot n (ev\<lparr>join_addr := a\<rparr>) = event_slot n ev"
  by (simp_all add: event_slot_def)

lemma wp_swim_decode_event:
  assumes slot: "event_slot 11 old" and len: "length buf = 2048"
  shows "wp dec_error (swim_decode_event old buf) (\<lambda>(ev, r). event_slot 11 ev \<and>
           (\<forall>n. r = Some n \<longrightarrow> n \<le> 2048 \<and> wf_event ev \<and> known_type (h_type (hdr ev)) \<and> gossip_count ev \<le> 11))"
    (is "wp _ _ ?Q")
  unfolding swim_decode_event_def wp_rbind
proof (rule wp_mono [OF wp_decode_header], goal_cases)
  case (1 a)
  obtain h rest where a: "a = (h, rest)" by (cases a)
  with 1 len have rest: "length rest = 2012" by simp
  let ?e = "old\<lparr>hdr := h\<rparr>"
  have e: "event_slot 11 ?e" and ja: "length (join_addr old) = SIZEOF_STORAGE"
    using slot by (simp_all add: event_slot_def)
  have uuid: "wp dec_error (swim_decode_uuid o' rest) (\<lambda>(u, rest).
      wp dec_error (decode_event_gossip 2048 (?e\<lparr>ev_uuid := u\<rparr>) rest) ?Q)"
    if "known_type (h_type h)" "h_type h \<noteq> EVENT_TYPE_JOIN" for o'
    by (rule wp_mono [OF wp_decode_uuid])
      (use rest slot that in \<open>auto intro!: wp_decode_event_gossip\<close>)
  have join: "wp dec_error (swim_decode_uuid o' rest) (\<lambda>(u, rest).
      wp dec_error (swim_decode_sockaddr (join_addr old) rest) (\<lambda>(a, n, rest).
      wp dec_error (decode_event_gossip 2048 (?e\<lparr>ev_uuid := u, join_addr := a, join_addrlen := n\<rparr>) rest) ?Q))"
    if "known_type (h_type h)" for o'
    by (rule wp_mono [OF wp_decode_uuid])
      (use rest slot that ja in \<open>auto intro!: wp_decode_event_gossip wp_mono [OF wp_decode_sockaddr]\<close>)
  have ping: "wp dec_error (decode_event_gossip 2048 ?e rest) ?Q" if "h_type h = EVENT_TYPE_PING"
    using e rest that by (intro wp_decode_event_gossip) (auto simp: known_type_def)
  note decs = swim_decode_event_ack_def swim_decode_event_join_def swim_decode_event_leave_def swim_decode_event_ping_req_def
  show ?case
    using a e len uuid join ping
    by (cases "h_type h") (auto simp: decs known_type_def case_prod_unfold elim!: wp_mono)
qed simp

end
