(* ===== verification/Swim_Wire.thy ===== *)
theory Swim_Wire
  imports Swim_Encoding Swim_View
begin

text \<open>
  What the encoders and decoders of \<open>swim/encoding.c\<close> promise for whole events: the bytes are those
  of the reference format, they fit into a packet, a receiver gets back what was sent, and no
  packet makes the decoder index the gossip array out of range.
\<close>

section \<open>Examples\<close>

definition sample_event :: "EventType \<Rightarrow> Event" where
  "sample_event ty = (zero_event 11)\<lparr>
     hdr := \<lparr>h_type = ty, h_uuid = 9, h_time = 1000, h_incarnation = 3\<rparr>, ev_uuid := 5,
     gossip_count := 1, gossip := sample_info 2 0 SWIM_STATUS_ALIVE 990 # replicate 10 zero_info\<rparr>"

lemma sample_event_simps [simp]:
  "hdr (sample_event ty) = \<lparr>h_type = ty, h_uuid = 9, h_time = 1000, h_incarnation = 3\<rparr>"
  "ev_uuid (sample_event ty) = 5" "join_addrlen (sample_event ty) = 0" "length (join_addr (sample_event ty)) = SIZEOF_STORAGE"
  "gossip_count (sample_event ty) = 1"
  "gossip (sample_event ty) = sample_info 2 0 SWIM_STATUS_ALIVE 990 # replicate 10 zero_info"
  by (simp_all add: sample_event_def zero_event_def)

lemma wf_sample_event [simp]: "wf_event (sample_event ty)"
  by (simp add: wf_event_def)

lemma wire_sample_event [simp]: "known_type ty \<Longrightarrow> wire_event (sample_event ty)"
  by (simp add: wire_event_def wire_info_def)

lemma event_slot_zero [simp]: "event_slot n (zero_event n)"
  by (auto simp: event_slot_def zero_event_def zero_info_def)

lemma known_types [simp]:
  "known_type EVENT_TYPE_PING" "known_type EVENT_TYPE_ACK" "known_type EVENT_TYPE_PING_REQ"
  "known_type EVENT_TYPE_JOIN" "known_type EVENT_TYPE_LEAVE" "\<not> known_type (EVENT_TYPE_OTHER n)"
  by (simp_all add: known_type_def)

section \<open>Lemmas\<close>

lemma decode_sockaddr_bytes:
  assumes "length d = SIZEOF_STORAGE" "n < 2 ^ 15" "n \<le> length rest"
  shows "swim_decode_sockaddr d (be_bytes 2 n @ rest) =
           (if n \<le> SIZEOF_STORAGE then Inr (take n rest @ drop n d, n, drop n rest) else Inl MemOverflow)"
proof -
  have "to_signed 16 n = int n" "size_t_of (int n) = n" "n mod 65536 = n"
    using assms by (simp_all add: to_signed_nonneg size_t_of_nat)
  then show ?thesis
    using assms by (auto simp: swim_decode_sockaddr_def swim_decode_varlen_def codec_defs make_decoder_append
        swim_decode_fixlen_def memcpy_def)
qed

section \<open>Properties\<close>

text \<open>C1: Encoding an event with at most eleven gossip records into a packet buffer always succeeds,
  writes exactly the bytes of the reference format, and leaves at least 104 of the 2048 bytes free.\<close>

theorem encode_event_exact:
  assumes "wf_event ev" "known_type (h_type (hdr ev))" "gossip_count ev \<le> 11"
  shows "swim_encode_event le ev SWIM_MAX_PACKET_SIZE = Inr (Some (event_bytes le ev)) \<and>
         length (event_bytes le ev) \<le> 1944"
proof -
  have "length (event_bytes le ev) \<le> 1944" using length_event_bytes [OF assms(1,3)] .
  then show ?thesis using swim_encode_event_eq [OF assms(1,2), of le 2048] by simp
qed

theorem encode_event_exact_witness:
  "swim_encode_event True (sample_event EVENT_TYPE_ACK) SWIM_MAX_PACKET_SIZE
     = Inr (Some (event_bytes True (sample_event EVENT_TYPE_ACK)))"
  using encode_event_exact [of "sample_event EVENT_TYPE_ACK" True] by simp

text \<open>C2: Round trip. Whatever object an event is decoded into, the bytes of an encoded event, followed
  by anything up to the size of the receive buffer, decode to the same event, and the decoder reports
  exactly the encoded length. Of the time in the header only the lower 32 bits arrive, because the
  length is stored over its upper half.\<close>

theorem event_roundtrip:
  assumes "wire_event ev" "gossip_count ev \<le> 11" "event_slot 11 old"
    and "swim_encode_event le ev SWIM_MAX_PACKET_SIZE = Inr (Some b)" "length (b @ rest) = SWIM_MAX_PACKET_SIZE"
  shows "\<exists>ev'. swim_decode_event old (b @ rest) = Inr (ev', Some (length b)) \<and>
           same_event ev' (ev\<lparr>hdr := (hdr ev)\<lparr>h_time := wire_time le (h_time (hdr ev))\<rparr>\<rparr>)"
proof -
  have "wf_event ev" "known_type (h_type (hdr ev))" using assms(1) by (simp_all add: wire_event_def)
  then have "b = event_bytes le ev"
    using swim_encode_event_eq [of ev le SWIM_MAX_PACKET_SIZE] assms(4) by (simp split: if_splits)
  then show ?thesis using swim_decode_event_append [OF assms(1-3), of le rest] assms(5) by simp
qed

theorem event_roundtrip_witness:
  "\<exists>b rest ev'. swim_encode_event True (sample_event EVENT_TYPE_JOIN) SWIM_MAX_PACKET_SIZE = Inr (Some b) \<and>
     swim_decode_event (zero_event 11) (b @ rest) = Inr (ev', Some (length b)) \<and>
     same_event ev' (sample_event EVENT_TYPE_JOIN)"
proof -
  let ?ev = "sample_event EVENT_TYPE_JOIN" and ?b = "event_bytes True (sample_event EVENT_TYPE_JOIN)"
  let ?rest = "replicate (2048 - length ?b) 0"
  have le: "length ?b \<le> 1944" using length_event_bytes [of ?ev True] by simp
  have enc: "swim_encode_event True ?ev SWIM_MAX_PACKET_SIZE = Inr (Some ?b)"
    using swim_encode_event_eq [of ?ev True 2048] le by simp
  have "\<exists>ev'. swim_decode_event (zero_event 11) (?b @ ?rest) = Inr (ev', Some (length ?b)) \<and>
           same_event ev' (?ev\<lparr>hdr := (hdr ?ev)\<lparr>h_time := wire_time True (h_time (hdr ?ev))\<rparr>\<rparr>)"
    by (rule event_roundtrip [OF _ _ _ enc]) (use le in simp_all)
  moreover have "?ev\<lparr>hdr := (hdr ?ev)\<lparr>h_time := wire_time True (h_time (hdr ?ev))\<rparr>\<rparr> = ?ev"
    by (rule Event.equality) (simp_all add: wire_time_def)
  ultimately show ?thesis using enc by metis
qed

text \<open>C3: Decoding a receive buffer of any content, into an event object with room for eleven gossip
  records, never indexes the gossip array out of range: it returns, stops at an assertion, or stops at
  an address that is longer than its object. When it accepts the packet, the event is well formed, of
  a type that has a handler, and carries at most eleven records.\<close>

theorem decode_event_safe:
  assumes "event_slot 11 old" "length buf = SWIM_MAX_PACKET_SIZE"
  shows "case swim_decode_event old buf of
      Inl e \<Rightarrow> e = AssertFailed \<or> e = MemOverflow
    | Inr (ev, r) \<Rightarrow> event_slot 11 ev \<and>
        (\<forall>n. r = Some n \<longrightarrow> n \<le> SWIM_MAX_PACKET_SIZE \<and> wf_event ev \<and> known_type (h_type (hdr ev)) \<and> gossip_count ev \<le> 11)"
  using wp_swim_decode_event [OF assms] by (simp add: wp_def)

theorem decode_event_safe_witness:
  "case swim_decode_event (zero_event 11) (replicate 2048 255) of
      Inl e \<Rightarrow> e = AssertFailed \<or> e = MemOverflow
    | Inr (ev, r) \<Rightarrow> event_slot 11 ev \<and>
        (\<forall>n. r = Some n \<longrightarrow> n \<le> SWIM_MAX_PACKET_SIZE \<and> wf_event ev \<and> known_type (h_type (hdr ev)) \<and> gossip_count ev \<le> 11)"
  by (rule decode_event_safe) simp_all

text \<open>C36: The length of an address in a packet is checked against the packet but not against the
  128-byte address object: a join packet that claims more than that many bytes, and has them, makes
  the decoder write past the end of the object.\<close>

theorem decode_join_overflow:
  assumes "h_type h = EVENT_TYPE_JOIN" "event_slot 11 old"
    and "SIZEOF_STORAGE < n" "n < 2 ^ 15" "n \<le> length rest"
  shows "swim_decode_event old (header_bytes le h @ uuid_bytes u @ be_bytes 2 n @ rest) = Inl MemOverflow"
proof -
  have "swim_decode_uuid o' (uuid_bytes u @ tl) = Inr (u, tl)" for o' tl
    by (simp add: swim_decode_uuid_def decode_fixlen_append)
  moreover have "length (join_addr old) = SIZEOF_STORAGE" using assms(2) by (simp add: event_slot_def)
  ultimately show ?thesis
    using assms parsesD [OF parses_header [of h "hdr old" le], of "uuid_bytes u @ be_bytes 2 n @ rest"]
    by (simp add: swim_decode_event_def Let_def swim_decode_event_join_def decode_sockaddr_bytes)
qed

theorem decode_join_overflow_witness:
  "swim_decode_event (zero_event 11) (header_bytes True (hdr (sample_event EVENT_TYPE_JOIN)) @ uuid_bytes 5 @
     be_bytes 2 200 @ replicate 300 0) = Inl MemOverflow"
  by (rule decode_join_overflow) simp_all

end
