(* ===== verification/Swim_Network.thy ===== *)
theory Swim_Network
  imports Swim_Encoding Swim_Probe
begin

text \<open>
  Sending and receiving events: \<open>swim/network.c\<close>. A datagram handed to \<open>sendto\<close> is appended
  to \<open>w_sent\<close>; the system refuses an address longer than a \<open>sockaddr_storage\<close>. What
  \<open>recvfrom\<close> delivers is an argument, as is what the receive buffer on the stack held before.
  The output of \<open>LOG\<close> and \<open>TRACE\<close> is not modelled.
\<close>

section \<open>Operations\<close>

definition c_sendto :: "Ext \<Rightarrow> byte list \<Rightarrow> byte list \<Rightarrow> nat \<Rightarrow> World \<Rightarrow> int \<times> World" where
  "c_sendto E bytes addr addrlen w =
     (if addrlen \<le> SIZEOF_STORAGE then
        (x_sendto E (length (w_sent w)),
         w\<lparr>w_sent := w_sent w @ [\<lparr>d_bytes = bytes, d_addr = take addrlen addr\<rparr>]\<rparr>)
      else (-1, w))"

definition fill_slot :: "Event \<Rightarrow> nat \<Rightarrow> SWIM \<Rightarrow> nat \<Rightarrow> Event result" where
  "fill_slot ev i s j =
     (if i < length (gossip ev) \<and> j < length (view s) then
        rbind (swim_node_copy (gossip ev ! i) (info (view s ! j))) (\<lambda>ni.
        Inr (ev\<lparr>gossip := (gossip ev)[i := ni]\<rparr>))
      else Inl OutOfBounds)"

definition swim_fill_gossip :: "Ext \<Rightarrow> Event \<Rightarrow> nat \<Rightarrow> World \<Rightarrow> (Event \<times> World) result" where
  "swim_fill_gossip E ev cnt w =
     rbind (c_assert (cnt \<le> gossip_count ev)) (\<lambda>_.
     if view_size (w_swim w) < SWIM_MAX_GOSSIP_SIZE then
       rbind (for_loop (\<lambda>i ev. fill_slot ev i (w_swim w) i) [0..<view_size (w_swim w)] ev) (\<lambda>ev.
       Inr (ev, w))
     else
       for_loop (\<lambda>i (ev, w).
           let (r, w) = c_rand E w in
           rbind (fill_slot ev i (w_swim w) (r mod view_size (w_swim w))) (\<lambda>ev. Inr (ev, w)))
         [0..<cnt] (ev, w))"

definition swim_send_event :: "Ext \<Rightarrow> Event \<Rightarrow> byte list \<Rightarrow> nat \<Rightarrow> World \<Rightarrow> (int \<times> World) result" where
  "swim_send_event E ev addr addrlen w =
     rbind (swim_encode_event (x_little_endian E) ev SWIM_MAX_PACKET_SIZE) (\<lambda>b.
     case b of
       None \<Rightarrow> Inl OutOfBounds
     | Some bytes \<Rightarrow> Inr (c_sendto E bytes addr addrlen w))"

definition swim_send_ack :: "Ext \<Rightarrow> uuid \<Rightarrow> byte list \<Rightarrow> nat \<Rightarrow> World \<Rightarrow> (int \<times> World) result" where
  "swim_send_ack E u addr addrlen w =
     (let n = min (view_size (w_swim w)) SWIM_MAX_GOSSIP_SIZE in
      rbind (swim_event_create E EVENT_TYPE_ACK n w) (\<lambda>(e, w).
      case e of
        None \<Rightarrow> Inl NullDeref
      | Some ev \<Rightarrow>
          rbind (swim_fill_gossip E (ev\<lparr>ev_uuid := u\<rparr>) n w) (\<lambda>(ev, w).
          swim_send_event E ev addr addrlen w)))"

definition swim_send_ping :: "Ext \<Rightarrow> byte list \<Rightarrow> nat \<Rightarrow> World \<Rightarrow> (int \<times> World) result" where
  "swim_send_ping E addr addrlen w =
     (let n = min (view_size (w_swim w)) SWIM_MAX_GOSSIP_SIZE in
      rbind (swim_event_create E EVENT_TYPE_PING n w) (\<lambda>(e, w).
      case e of
        None \<Rightarrow> Inl NullDeref
      | Some ev \<Rightarrow>
          rbind (swim_fill_gossip E ev n w) (\<lambda>(ev, w).
          swim_send_event E ev addr addrlen w)))"

definition swim_send_ping_req :: "Ext \<Rightarrow> uuid \<Rightarrow> byte list \<Rightarrow> nat \<Rightarrow> World \<Rightarrow> (int \<times> World) result" where
  "swim_send_ping_req E target_uuid addr addrlen w =
     (let n = min (view_size (w_swim w)) SWIM_MAX_GOSSIP_SIZE in
      rbind (swim_event_create E EVENT_TYPE_PING_REQ n w) (\<lambda>(e, w).
      case e of
        None \<Rightarrow> Inl NullDeref
      | Some ev \<Rightarrow>
          rbind (swim_fill_gossip E (ev\<lparr>ev_uuid := target_uuid\<rparr>) n w) (\<lambda>(ev, w).
          swim_send_event E ev addr addrlen w)))"

text \<open>What \<open>recvfrom\<close> does: it times out or fails (\<open>RecvNothing\<close>), or it delivers a datagram,
  cut off at the size of the buffer, and the address it came from.\<close>

datatype Recv = RecvNothing | RecvDatagram "byte list" "byte list"

definition swim_recv_event ::
  "Recv \<Rightarrow> byte list \<Rightarrow> Event \<Rightarrow> byte list \<Rightarrow> nat \<Rightarrow> (int \<times> Event \<times> byte list \<times> nat) result" where
  "swim_recv_event rcv stack ev addr addrlen =
     (case rcv of
        RecvNothing \<Rightarrow> Inr (-1, ev, addr, addrlen)
      | RecvDatagram bytes from \<Rightarrow>
          let n = min (length bytes) SWIM_MAX_PACKET_SIZE;
              buf = take n bytes @ drop n stack;
              k = min (length from) addrlen;
              addr = take k from @ drop k addr;
              addrlen = length from
          in if n = 0 then Inr (0, ev, addr, addrlen)
             else
               rbind (swim_decode_event ev buf) (\<lambda>(ev, consumed).
               Inr (case consumed of None \<Rightarrow> -1 | Some n \<Rightarrow> int n, ev, addr, addrlen)))"

text \<open>
  What a message made from the state \<open>s\<close> looks like: the sender's identifier and incarnation, and
  as gossip only records of the view, all of them if they fit.
\<close>

definition gossip_of :: "SWIM \<Rightarrow> NodeInfo list \<Rightarrow> bool" where
  "gossip_of s gs \<longleftrightarrow> (\<forall>g \<in> set gs. wf_info g \<and> (\<exists>nd \<in> set (nodes s). same_info g (info nd)))"

definition message_of :: "SWIM \<Rightarrow> EventType \<Rightarrow> uuid \<Rightarrow> Event \<Rightarrow> bool" where
  "message_of s ty u ev \<longleftrightarrow>
     h_type (hdr ev) = ty \<and> h_uuid (hdr ev) = s_uuid s \<and> h_incarnation (hdr ev) = s_incarnation s \<and>
     ev_uuid ev = u \<and> length (join_addr ev) = SIZEOF_STORAGE \<and> join_addrlen ev = 0 \<and>
     gossip_count ev = min (view_size s) SWIM_MAX_GOSSIP_SIZE \<and> length (gossip ev) = gossip_count ev \<and>
     gossip_of s (gossip ev) \<and>
     (view_size s < SWIM_MAX_GOSSIP_SIZE \<longrightarrow> list_all2 same_info (gossip ev) (map info (nodes s)))"

text \<open>The functions that create an event use it without a test: where memory may run out, a null
  dereference must be reckoned with.\<close>

definition null_allowed :: "Ext \<Rightarrow> (cerr \<Rightarrow> bool) \<Rightarrow> bool" where
  "null_allowed E Er \<longleftrightarrow> (\<forall>k. \<not> x_alloc E k \<longrightarrow> Er NullDeref)"

section \<open>Filling in gossip\<close>

lemma wp_fill_slot:
  assumes wf: "wf_swim E s" and i: "i < length (gossip ev)" "length (n_addr (gossip ev ! i)) = SIZEOF_STORAGE"
    and j: "j < view_size s"
    and Q: "\<And>ni. wf_info ni \<Longrightarrow> same_info ni (info (view s ! j)) \<Longrightarrow> Q (ev\<lparr>gossip := (gossip ev)[i := ni]\<rparr>)"
  shows "wp Er (fill_slot ev i s j) Q"
proof -
  have "wf_info (info (view s ! j))" "j < length (view s)"
    using wf_swim_nth [OF wf j] wf_swimD(3) [OF wf] j by (auto simp: wf_node_def)
  then show ?thesis
    using i by (auto simp: fill_slot_def intro!: wp_swim_node_copy Q)
qed

lemma gossip_of_snoc:
  "gossip_of s (take k gs) \<Longrightarrow> k < length gs \<Longrightarrow> wf_info ni \<Longrightarrow> nd \<in> set (nodes s) \<Longrightarrow> same_info ni (info nd) \<Longrightarrow>
   gossip_of s (take (Suc k) (gs[k := ni]))"
  by (auto simp: gossip_of_def take_Suc_conv_app_nth)

text \<open>The array of a message while it is filled.\<close>

definition gossip_slots :: "nat \<Rightarrow> NodeInfo list \<Rightarrow> bool" where
  "gossip_slots n gs \<longleftrightarrow> length gs = n \<and> (\<forall>g \<in> set gs. length (n_addr g) = SIZEOF_STORAGE)"

lemma gossip_slots_simps [simp]:
  "gossip_slots n (replicate n zero_info)"
  "gossip_slots n gs \<Longrightarrow> wf_info ni \<Longrightarrow> gossip_slots n (gs[k := ni])"
  by (auto simp: gossip_slots_def zero_info_def wf_info_def dest!: set_update_subset_insert [THEN subsetD])

text \<open>A view that fits is copied as a whole.\<close>

lemma wp_fill_all:
  assumes wf: "wf_swim E s" and gs0: "gossip_slots (view_size s) (gossip ev)"
  shows "wp Er (for_loop (\<lambda>i e. fill_slot e i s i) [0..<view_size s] ev) (\<lambda>e. \<exists>gs. e = ev\<lparr>gossip := gs\<rparr> \<and>
           gossip_slots (view_size s) gs \<and> gossip_of s gs \<and> list_all2 same_info gs (map info (nodes s)))"
proof -
  let ?I = "\<lambda>k e. \<exists>gs. e = ev\<lparr>gossip := gs\<rparr> \<and> gossip_slots (view_size s) gs \<and> gossip_of s (take k gs) \<and>
              (\<forall>j < k. same_info (gs ! j) (info (view s ! j)))"
  have "wp Er (for_loop (\<lambda>i e. fill_slot e i s i) [0..<view_size s] ev) (?I (view_size s))"
  proof (rule wp_for_upt [where I = ?I])
    show "?I 0 ev" using gs0 by (intro exI [of _ "gossip ev"]) (simp add: gossip_of_def)
    fix k e assume k: "k < view_size s" and I: "?I k e"
    then obtain gs where gs: "e = ev\<lparr>gossip := gs\<rparr>" "gossip_slots (view_size s) gs" "gossip_of s (take k gs)"
      "\<forall>j < k. same_info (gs ! j) (info (view s ! j))" by blast
    then have "length gs = view_size s" "\<forall>g \<in> set gs. length (n_addr g) = SIZEOF_STORAGE" by (simp_all add: gossip_slots_def)
    then show "wp Er (fill_slot e k s k) (?I (Suc k))"
      using gs k wf_swim_nth [OF wf k]
      by (intro wp_fill_slot [OF wf]) (auto simp: less_Suc_eq nth_list_update intro!: gossip_of_snoc)
  qed
  then show ?thesis
    using wf_swimD(3) [OF wf] by (auto elim!: wp_mono simp: gossip_slots_def list_all2_conv_all_nth)
qed

text \<open>From a larger view, records are drawn at random.\<close>

lemma wp_fill_random:
  assumes wf: "wf_swim E (w_swim w)" and pos: "0 < view_size (w_swim w)" and gs0: "gossip_slots n (gossip ev)"
  shows "wp Er (for_loop (\<lambda>i (e, w). let (r, w) = c_rand E w in
             rbind (fill_slot e i (w_swim w) (r mod view_size (w_swim w))) (\<lambda>e. Inr (e, w))) [0..<n] (ev, w))
           (\<lambda>(e, w'). \<exists>gs. e = ev\<lparr>gossip := gs\<rparr> \<and> gossip_slots n gs \<and> gossip_of (w_swim w) gs \<and>
              w_swim w' = w_swim w \<and> w_sent w' = w_sent w)"
proof -
  let ?s = "w_swim w"
  let ?I = "\<lambda>k (e, w' :: World). \<exists>gs. e = ev\<lparr>gossip := gs\<rparr> \<and> gossip_slots n gs \<and> gossip_of ?s (take k gs) \<and>
              w_swim w' = ?s \<and> w_sent w' = w_sent w"
  have "wp Er (for_loop (\<lambda>i (e, w). let (r, w) = c_rand E w in
           rbind (fill_slot e i (w_swim w) (r mod view_size (w_swim w))) (\<lambda>e. Inr (e, w))) [0..<n] (ev, w)) (?I n)"
  proof (rule wp_for_upt [where I = ?I])
    show "?I 0 (ev, w)" using gs0 by (auto intro!: exI [of _ "gossip ev"] simp: gossip_of_def)
    fix k t assume k: "k < n" and I: "?I k t"
    obtain e w' where t: "t = (e, w')" by (cases t)
    with I obtain gs where gs: "e = ev\<lparr>gossip := gs\<rparr>" "gossip_slots n gs" "gossip_of ?s (take k gs)"
      "w_swim w' = ?s" "w_sent w' = w_sent w" by auto
    have l: "length gs = n" "\<forall>g \<in> set gs. length (n_addr g) = SIZEOF_STORAGE" using gs(2) by (simp_all add: gossip_slots_def)
    let ?j = "x_rand E (w_rand w') mod view_size ?s" and ?w = "w'\<lparr>w_rand := Suc (w_rand w')\<rparr>"
    have j: "?j < view_size ?s" using pos by simp
    have "wp Er (fill_slot e k ?s ?j) (\<lambda>e. ?I (Suc k) (e, ?w))"
    proof (rule wp_fill_slot [OF wf _ _ j])
      fix ni assume ni: "wf_info ni" "same_info ni (info (view ?s ! ?j))"
      have "gossip_of ?s (take (Suc k) (gs[k := ni]))"
        using l k wf_swim_nth [OF wf j] by (intro gossip_of_snoc [OF gs(3) _ ni(1) _ ni(2)]) simp_all
      then show "?I (Suc k) (e\<lparr>gossip := (gossip e)[k := ni]\<rparr>, ?w)"
        using gs ni(1) by (auto intro!: exI [of _ "gs[k := ni]"])
    qed (use gs(1) l k in auto)
    then show "wp Er (case t of (e, w) \<Rightarrow> let (r, w) = c_rand E w in
           rbind (fill_slot e k (w_swim w) (r mod view_size (w_swim w))) (\<lambda>e. Inr (e, w))) (?I (Suc k))"
      using gs(4) by (simp add: t c_rand_def Let_def)
  qed
  then show ?thesis by (rule wp_mono) (auto simp: gossip_slots_def)
qed

lemma wp_swim_fill_gossip:
  assumes wf: "wf_swim E (w_swim w)" and ev: "gossip_count ev = min (view_size (w_swim w)) SWIM_MAX_GOSSIP_SIZE"
      "gossip ev = replicate (gossip_count ev) zero_info"
    and Q: "\<And>gs w'. w_swim w' = w_swim w \<Longrightarrow> w_sent w' = w_sent w \<Longrightarrow> length gs = gossip_count ev \<Longrightarrow>
          gossip_of (w_swim w) gs \<Longrightarrow>
          (view_size (w_swim w) < SWIM_MAX_GOSSIP_SIZE \<longrightarrow> list_all2 same_info gs (map info (nodes (w_swim w)))) \<Longrightarrow>
          Q (ev\<lparr>gossip := gs\<rparr>, w')"
  shows "wp Er (swim_fill_gossip E ev (gossip_count ev) w) Q"
proof (cases "view_size (w_swim w) < SWIM_MAX_GOSSIP_SIZE")
  case True
  then have n: "gossip_count ev = view_size (w_swim w)" using ev(1) by simp
  then have "gossip_slots (view_size (w_swim w)) (gossip ev)" using ev(2) by simp
  from wp_fill_all [OF wf this, of Er] show ?thesis
    unfolding swim_fill_gossip_def using True n by (auto elim!: wp_mono intro!: Q simp: gossip_slots_def)
next
  case False
  then have "0 < view_size (w_swim w)" "gossip_slots (gossip_count ev) (gossip ev)" using ev(2) by simp_all
  from wp_fill_random [OF wf this, of Er] show ?thesis
    unfolding swim_fill_gossip_def using False by (auto elim!: wp_mono intro!: Q simp: gossip_slots_def)
qed

section \<open>Sending\<close>

text \<open>The event \<open>ev\<close> is handed to the network, and nothing else changes but the call counters.\<close>

definition sends :: "Ext \<Rightarrow> World \<Rightarrow> Event \<Rightarrow> byte list \<Rightarrow> nat \<Rightarrow> World \<Rightarrow> bool" where
  "sends E w ev addr addrlen w' \<longleftrightarrow>
     w_swim w' = w_swim w \<and>
     w_sent w' = w_sent w @ (if addrlen \<le> SIZEOF_STORAGE
       then [\<lparr>d_bytes = event_bytes (x_little_endian E) ev, d_addr = take addrlen addr\<rparr>] else [])"

lemma wp_swim_send_event:
  assumes "wf_event ev" "known_type (h_type (hdr ev))" "gossip_count ev \<le> 11"
    and "\<And>r w'. sends E w ev addr addrlen w' \<Longrightarrow> Q (r, w')"
  shows "wp Er (swim_send_event E ev addr addrlen w) Q"
proof -
  have "length (event_bytes (x_little_endian E) ev) \<le> 2048"
    by (rule order_trans [OF length_event_bytes [OF assms(1,3)]]) simp
  then have "swim_send_event E ev addr addrlen w = Inr (c_sendto E (event_bytes (x_little_endian E) ev) addr addrlen w)"
    by (simp add: swim_send_event_def swim_encode_event_eq [OF assms(1,2)])
  moreover have "sends E w ev addr addrlen (snd (c_sendto E (event_bytes (x_little_endian E) ev) addr addrlen w))"
    by (simp add: c_sendto_def sends_def)
  ultimately show ?thesis using assms(4) by (cases "c_sendto E (event_bytes (x_little_endian E) ev) addr addrlen w") simp
qed

lemma wp_send_message:
  assumes wf: "wf_swim E (w_swim w)" and ty: "known_type ty" "ty \<noteq> EVENT_TYPE_JOIN"
    and n: "n = min (view_size (w_swim w)) SWIM_MAX_GOSSIP_SIZE"
    and f: "\<And>ev. ev_uuid ev = 0 \<Longrightarrow> f ev = ev\<lparr>ev_uuid := u\<rparr>"
    and Er: "\<not> x_alloc E (w_alloc w) \<Longrightarrow> Er NullDeref"
    and Q: "\<And>r ev w'. message_of (w_swim w) ty u ev \<Longrightarrow> sends E w ev addr addrlen w' \<Longrightarrow> Q (r, w')"
  shows "wp Er (rbind (swim_event_create E ty n w) (\<lambda>(e, w).
      case e of None \<Rightarrow> Inl NullDeref
      | Some ev \<Rightarrow> rbind (swim_fill_gossip E (f ev) n w) (\<lambda>(ev, w). swim_send_event E ev addr addrlen w))) Q"
  unfolding wp_rbind
proof (rule wp_swim_event_create, goal_cases)
  case 1
  then show ?case using n by simp
next
  case (2 w')
  then show ?case using Er by simp
next
  case (3 ev w1)
  let ?e = "ev\<lparr>ev_uuid := u\<rparr>"
  have fe: "f ev = ?e" using 3(5) by (rule f)
  have fill: "wp Er (swim_fill_gossip E ?e (gossip_count ?e) w1)
     (\<lambda>r. wp Er (case r of (ev, w) \<Rightarrow> swim_send_event E ev addr addrlen w) Q)"
  proof (rule wp_swim_fill_gossip)
    show "wf_swim E (w_swim w1)" "gossip_count ?e = min (view_size (w_swim w1)) SWIM_MAX_GOSSIP_SIZE"
      "gossip ?e = replicate (gossip_count ?e) zero_info" using wf 3 n by simp_all
    fix gs and w2 :: World
    assume g: "w_swim w2 = w_swim w1" "w_sent w2 = w_sent w1" "length gs = gossip_count ?e" "gossip_of (w_swim w1) gs"
      "view_size (w_swim w1) < SWIM_MAX_GOSSIP_SIZE \<longrightarrow> list_all2 same_info gs (map info (nodes (w_swim w1)))"
    have m: "message_of (w_swim w) ty u (?e\<lparr>gossip := gs\<rparr>)"
      using g 3 n by (simp add: message_of_def)
    show "wp Er (case (?e\<lparr>gossip := gs\<rparr>, w2) of (ev, w) \<Rightarrow> swim_send_event E ev addr addrlen w) Q"
      unfolding prod.case
    proof (rule wp_swim_send_event)
      show "wf_event (?e\<lparr>gossip := gs\<rparr>)" using g 3 by (simp add: wf_event_def gossip_of_def)
      show "known_type (h_type (hdr (?e\<lparr>gossip := gs\<rparr>)))" "gossip_count (?e\<lparr>gossip := gs\<rparr>) \<le> 11"
        using 3 ty n by simp_all
      fix r w' assume "sends E w2 (?e\<lparr>gossip := gs\<rparr>) addr addrlen w'"
      then show "Q (r, w')" using g 3 by (intro Q [OF m]) (simp add: sends_def)
    qed
  qed
  then show ?case using fe 3 by simp
qed

lemma wp_swim_send_ack:
  assumes "wf_swim E (w_swim w)" and "\<not> x_alloc E (w_alloc w) \<Longrightarrow> Er NullDeref"
    and "\<And>r ev w'. message_of (w_swim w) EVENT_TYPE_ACK u ev \<Longrightarrow> sends E w ev addr addrlen w' \<Longrightarrow> Q (r, w')"
  shows "wp Er (swim_send_ack E u addr addrlen w) Q"
  unfolding swim_send_ack_def Let_def
  by (rule wp_send_message [where f = "\<lambda>ev. ev\<lparr>ev_uuid := u\<rparr>" and u = u])
    (use assms in \<open>auto simp: known_type_def\<close>)

lemma wp_swim_send_ping:
  assumes "wf_swim E (w_swim w)" and "\<not> x_alloc E (w_alloc w) \<Longrightarrow> Er NullDeref"
    and "\<And>r ev w'. message_of (w_swim w) EVENT_TYPE_PING 0 ev \<Longrightarrow> sends E w ev addr addrlen w' \<Longrightarrow> Q (r, w')"
  shows "wp Er (swim_send_ping E addr addrlen w) Q"
  unfolding swim_send_ping_def Let_def
  by (rule wp_send_message [where f = "\<lambda>ev. ev" and u = 0])
    (use assms in \<open>auto simp: known_type_def intro: Event.equality\<close>)

lemma wp_swim_send_ping_req:
  assumes "wf_swim E (w_swim w)" and "\<not> x_alloc E (w_alloc w) \<Longrightarrow> Er NullDeref"
    and "\<And>r ev w'. message_of (w_swim w) EVENT_TYPE_PING_REQ u ev \<Longrightarrow> sends E w ev addr addrlen w' \<Longrightarrow> Q (r, w')"
  shows "wp Er (swim_send_ping_req E u addr addrlen w) Q"
  unfolding swim_send_ping_req_def Let_def
  by (rule wp_send_message [where f = "\<lambda>ev. ev\<lparr>ev_uuid := u\<rparr>" and u = u])
    (use assms in \<open>auto simp: known_type_def\<close>)

end
