(* ===== verification/Swim_Cluster.thy ===== *)
theory Swim_Cluster
  imports Swim_Network
begin

text \<open>
  Cluster operations: \<open>swim/cluster.c\<close>. A \<open>NodeState *\<close> argument is the index of the node in
  the view.
\<close>

section \<open>Operations\<close>

definition swim_cluster_join :: "Ext \<Rightarrow> byte list \<Rightarrow> nat \<Rightarrow> World \<Rightarrow> World result" where
  "swim_cluster_join E addr addrlen w =
     (let (ev, w) = swim_event_init E (zero_event 0) EVENT_TYPE_JOIN w;
          ev = ev\<lparr>ev_uuid := s_uuid (w_swim w)\<rparr>
      in rbind (swim_send_event E ev addr addrlen w) (\<lambda>(_, w). Inr w))"

definition leave_step :: "Ext \<Rightarrow> Event \<Rightarrow> nat \<Rightarrow> nat \<Rightarrow> World \<Rightarrow> World result" where
  "leave_step E ev pos i w =
     (let s = w_swim w; j = (pos + i) mod view_size s in
      if j < length (view s) then
        rbind (swim_send_event E ev (n_addr (info (view s ! j))) (n_addrlen (info (view s ! j))) w) (\<lambda>(_, w). Inr w)
      else Inl OutOfBounds)"

definition swim_cluster_leave :: "Ext \<Rightarrow> World \<Rightarrow> World result" where
  "swim_cluster_leave E w =
     (if view_size (w_swim w) = 0 then Inr w
      else
        let (r, w) = c_rand E w;
            pos = r mod view_size (w_swim w);
            (ev, w) = swim_event_init E (zero_event 0) EVENT_TYPE_LEAVE w
        in for_loop (leave_step E ev pos) [0..<min (view_size (w_swim w)) SWIM_MAXLEAVE] w)"

definition set_status :: "Status \<Rightarrow> NodeState \<Rightarrow> NodeState" where
  "set_status st nd = nd\<lparr>info := (info nd)\<lparr>n_status := st\<rparr>\<rparr>"

definition suspect_dead_step :: "Ext \<Rightarrow> nat \<Rightarrow> nat \<Rightarrow> nat \<Rightarrow> World \<Rightarrow> World result" where
  "suspect_dead_step E target start sent w =
     (let s = w_swim w; j = (start + sent) mod view_size s in
      if length (view s) \<le> j then Inl OutOfBounds
      else if node_status (view s ! j) = SWIM_STATUS_ALIVE then
        rbind (swim_send_ping_req E (node_uuid (view s ! target))
                 (n_addr (info (view s ! j))) (n_addrlen (info (view s ! j))) w) (\<lambda>(_, w). Inr w)
      else Inr w)"

definition swim_cluster_suspect_dead :: "Ext \<Rightarrow> nat \<Rightarrow> World \<Rightarrow> World result" where
  "swim_cluster_suspect_dead E target w =
     (if view_size (w_swim w) = 0 then Inr w
      else
        let (r, w) = c_rand E w;
            start = r mod view_size (w_swim w);
            w = w\<lparr>w_swim := upd_node target (set_status SWIM_STATUS_SUSPECT) (w_swim w)\<rparr>
        in for_loop (suspect_dead_step E target start)
             (rev [Suc start..<Suc (min (view_size (w_swim w)) SWIM_MAXPINGREQ)]) w)"

definition swim_cluster_declare_dead :: "nat \<Rightarrow> World \<Rightarrow> World" where
  "swim_cluster_declare_dead target w =
     w\<lparr>w_swim := upd_node target (set_status SWIM_STATUS_DEAD) (w_swim w)\<rparr>"

definition swim_cluster_refuted_dead :: "nat \<Rightarrow> World \<Rightarrow> World" where
  "swim_cluster_refuted_dead target w =
     w\<lparr>w_swim := upd_node target (\<lambda>nd. swim_node_reset_witness (set_status SWIM_STATUS_ALIVE nd)) (w_swim w)\<rparr>"

definition heartbeat_node :: "Ext \<Rightarrow> time_t \<Rightarrow> nat \<Rightarrow> World \<Rightarrow> World result" where
  "heartbeat_node E now i w =
     (if length (view (w_swim w)) \<le> i then Inl OutOfBounds
      else
        let ni = info (view (w_swim w) ! i) in
        case n_status ni of
          SWIM_STATUS_ALIVE \<Rightarrow>
            if n_last_seen ni \<le> now - 60 then swim_cluster_suspect_dead E i w else Inr w
        | SWIM_STATUS_SUSPECT \<Rightarrow>
            if n_last_seen ni \<le> now - 120 then Inr (swim_cluster_declare_dead i w) else Inr w
        | SWIM_STATUS_DEAD \<Rightarrow> Inr w
        | SWIM_STATUS_UNKNOWN \<Rightarrow> Inr w
        | SWIM_STATUS_OTHER _ \<Rightarrow> Inr w)"

definition heartbeat_probe :: "Ext \<Rightarrow> nat option \<Rightarrow> World \<Rightarrow> World result" where
  "heartbeat_probe E target_idx w =
     (case target_idx of
        None \<Rightarrow> Inr w
      | Some i \<Rightarrow>
          if i < length (view (w_swim w)) then
            rbind (swim_send_ping E (n_addr (info (view (w_swim w) ! i)))
                     (n_addrlen (info (view (w_swim w) ! i))) w) (\<lambda>(_, w). Inr w)
          else Inl OutOfBounds)"

definition swim_cluster_heartbeat :: "Ext \<Rightarrow> World \<Rightarrow> World result" where
  "swim_cluster_heartbeat E w =
     (let (now, w) = c_time E w in
      if 0 < view_size (w_swim w) \<and> last_heartbeat (w_swim w) + SWIM_HEARTBEAT_INTERVAL < now then
        rbind (swim_probe_next E w) (\<lambda>(target_idx, w).
        let w = w\<lparr>w_swim := (w_swim w)\<lparr>last_heartbeat := now\<rparr>\<rparr> in
        rbind (heartbeat_probe E target_idx w) (\<lambda>w.
        for_loop (heartbeat_node E now) [0..<view_size (w_swim w)] w))
      else Inr w)"

text \<open>What the heartbeat makes of one node, by its age.\<close>

definition age_node :: "time_t \<Rightarrow> NodeState \<Rightarrow> NodeState" where
  "age_node now nd =
     (if node_status nd = SWIM_STATUS_ALIVE \<and> n_last_seen (info nd) \<le> now - 60 then set_status SWIM_STATUS_SUSPECT nd
      else if node_status nd = SWIM_STATUS_SUSPECT \<and> n_last_seen (info nd) \<le> now - 120 then set_status SWIM_STATUS_DEAD nd
      else nd)"

text \<open>Requests to ping the node \<open>target\<close>: to nodes believed alive, never to the target.\<close>

definition ping_reqs :: "Ext \<Rightarrow> SWIM \<Rightarrow> nat \<Rightarrow> Datagram list \<Rightarrow> bool" where
  "ping_reqs E s target ds \<longleftrightarrow>
     (\<forall>d \<in> set ds. \<exists>j ev. j < view_size s \<and> j \<noteq> target \<and> node_status (view s ! j) = SWIM_STATUS_ALIVE \<and>
        message_of s EVENT_TYPE_PING_REQ (node_uuid (view s ! target)) ev \<and>
        d = \<lparr>d_bytes = event_bytes (x_little_endian E) ev,
             d_addr = take (n_addrlen (info (view s ! j))) (n_addr (info (view s ! j)))\<rparr>)"

section \<open>Lemmas\<close>

lemma set_status_simps [simp]:
  "node_uuid (set_status st nd) = node_uuid nd"
  "node_status (set_status st nd) = st"
  "wf_node (set_status st nd) = wf_node nd"
  "n_last_seen (info (set_status st nd)) = n_last_seen (info nd)"
  "w_addr (set_status st nd) = w_addr nd"
  "wf_info (info (set_status st nd)) = wf_info (info nd)"
  by (simp_all add: set_status_def wf_node_def wf_info_def)

lemma age_node_simps [simp]:
  "node_uuid (age_node now nd) = node_uuid nd" "wf_node (age_node now nd) = wf_node nd"
  by (simp_all add: age_node_def)

lemma sends_node:
  assumes "wf_node nd" "sends E w ev (n_addr (info nd)) (n_addrlen (info nd)) w'"
  shows "w_swim w' = w_swim w"
    "w_sent w' = w_sent w @ [\<lparr>d_bytes = event_bytes (x_little_endian E) ev, d_addr = take (n_addrlen (info nd)) (n_addr (info nd))\<rparr>]"
  using assms by (simp_all add: sends_def wf_node_def wf_info_def)

lemma ping_reqs_append [simp]: "ping_reqs E s target (ds @ ds') \<longleftrightarrow> ping_reqs E s target ds \<and> ping_reqs E s target ds'"
  by (auto simp: ping_reqs_def)

lemma wp_ping_req_to:
  assumes wf: "wf_swim E (w_swim w)" and j: "j < view_size (w_swim w)" "j \<noteq> target"
      "node_status (view (w_swim w) ! j) = SWIM_STATUS_ALIVE"
    and Er: "null_allowed E Er"
    and Q: "\<And>r w' d. w_swim w' = w_swim w \<Longrightarrow> w_sent w' = w_sent w @ [d] \<Longrightarrow> ping_reqs E (w_swim w) target [d] \<Longrightarrow> Q (r, w')"
  shows "wp Er (swim_send_ping_req E (node_uuid (view (w_swim w) ! target))
           (n_addr (info (view (w_swim w) ! j))) (n_addrlen (info (view (w_swim w) ! j))) w) Q"
proof (rule wp_swim_send_ping_req [OF wf])
  show "\<not> x_alloc E (w_alloc w) \<Longrightarrow> Er NullDeref" using Er by (auto simp: null_allowed_def)
  fix r :: int and ev w' assume ev: "message_of (w_swim w) EVENT_TYPE_PING_REQ (node_uuid (view (w_swim w) ! target)) ev"
    and snd: "sends E w ev (n_addr (info (view (w_swim w) ! j))) (n_addrlen (info (view (w_swim w) ! j))) w'"
  have nd: "wf_node (view (w_swim w) ! j)" using wf_swim_nth [OF wf j(1)] by simp
  show "Q (r, w')"
    using ev j by (intro Q [OF sends_node [OF nd snd]]) (auto simp: ping_reqs_def)
qed

lemma wp_swim_cluster_suspect_dead:
  assumes wf: "wf_swim E (w_swim w)" and t: "target < view_size (w_swim w)"
    and Er: "null_allowed E Er"
  shows "wp Er (swim_cluster_suspect_dead E target w) (\<lambda>w'.
           w_swim w' = upd_node target (set_status SWIM_STATUS_SUSPECT) (w_swim w) \<and>
           (\<exists>ds. w_sent w' = w_sent w @ ds \<and> ping_reqs E (w_swim w') target ds \<and>
              length ds \<le> min (view_size (w_swim w)) SWIM_MAXPINGREQ - x_rand E (w_rand w) mod view_size (w_swim w)))"
proof -
  define s where "s = upd_node target (set_status SWIM_STATUS_SUSPECT) (w_swim w)"
  define start where "start = x_rand E (w_rand w) mod view_size s"
  define ks where "ks = rev [Suc start..<Suc (min (view_size s) SWIM_MAXPINGREQ)]"
  let ?I = "\<lambda>k (w' :: World). w_swim w' = s \<and> (\<exists>ds. w_sent w' = w_sent w @ ds \<and> ping_reqs E s target ds \<and> length ds \<le> k)"
  have n: "0 < view_size s" "view_size s = view_size (w_swim w)" using t by (simp_all add: s_def)
  have st: "node_status (view s ! target) = SWIM_STATUS_SUSPECT"
    using t wf_swimD(3) [OF wf] by (simp add: s_def)
  have wfs: "wf_swim E s"
    unfolding s_def using wf_swim_nth [OF wf t] by (intro wf_upd_node [OF wf t]) simp_all
  have "wp Er (for_loop (suspect_dead_step E target start) ks (w\<lparr>w_rand := Suc (w_rand w), w_swim := s\<rparr>)) (?I (length ks))"
  proof (rule wp_for_nth [where I = ?I])
    show "?I 0 (w\<lparr>w_rand := Suc (w_rand w), w_swim := s\<rparr>)" by (simp add: ping_reqs_def)
    fix k and w' :: World assume "?I k w'"
    then obtain ds where w': "w_swim w' = s" and ds: "w_sent w' = w_sent w @ ds" "ping_reqs E s target ds" "length ds \<le> k"
      by blast
    let ?j = "(start + ks ! k) mod view_size s"
    have j: "?j < view_size s" using n(1) by simp
    then have jl: "?j < length (view s)" using wf_swimD(3) [OF wfs] by (rule less_le_trans)
    have snd: "w_sent w'' = w_sent w' @ [d] \<Longrightarrow> ping_reqs E s target [d] \<Longrightarrow>
        \<exists>ds. w_sent w'' = w_sent w @ ds \<and> ping_reqs E s target ds \<and> length ds \<le> Suc k" for w'' :: World and d
      using ds by (intro exI [of _ "ds @ [d]"]) simp
    have "wp Er (swim_send_ping_req E (node_uuid (view s ! target))
            (n_addr (info (view s ! ?j))) (n_addrlen (info (view s ! ?j))) w') (\<lambda>r. ?I (Suc k) (snd r))"
      if "node_status (view s ! ?j) = SWIM_STATUS_ALIVE"
      using wp_ping_req_to [of E w' ?j target] wfs w' j that st Er snd by fastforce
    then show "wp Er (suspect_dead_step E target start (ks ! k) w') (?I (Suc k))"
      using jl w' ds le_SucI by (auto simp: suspect_dead_step_def Let_def case_prod_unfold elim!: wp_mono)
  qed
  moreover have "swim_cluster_suspect_dead E target w = for_loop (suspect_dead_step E target start) ks (w\<lparr>w_rand := Suc (w_rand w), w_swim := s\<rparr>)"
    using t by (simp add: swim_cluster_suspect_dead_def c_rand_def ks_def start_def s_def Let_def del: upt_Suc)
  moreover have "length ks = min (view_size (w_swim w)) SWIM_MAXPINGREQ - x_rand E (w_rand w) mod view_size (w_swim w)"
    by (simp add: ks_def start_def n(2) del: upt_Suc)
  ultimately show ?thesis by (auto simp: s_def [symmetric] elim!: wp_mono)
qed

lemma wf_swim_event_init [simp]:
  "length (gossip ev) = 0 \<Longrightarrow> wf_event (fst (swim_event_init E ev ty w))"
  "h_type (hdr (fst (swim_event_init E ev ty w))) = ty"
  "gossip_count (fst (swim_event_init E ev ty w)) = 0"
  "ev_uuid (fst (swim_event_init E ev ty w)) = 0"
  "w_swim (snd (swim_event_init E ev ty w)) = w_swim w"
  "w_sent (snd (swim_event_init E ev ty w)) = w_sent w"
  by (simp_all add: swim_event_init_def c_time_def zero_event_def wf_event_def)

lemma zero_event_gossip [simp]: "gossip (zero_event 0) = []"
  by (simp add: zero_event_def)

lemma wf_event_upd [simp]: "wf_event (ev\<lparr>ev_uuid := u\<rparr>) = wf_event ev"
  by (simp add: wf_event_def)

lemma wp_swim_cluster_join:
  "wp Er (swim_cluster_join E addr addrlen w) (\<lambda>w'. sends E w
     ((fst (swim_event_init E (zero_event 0) EVENT_TYPE_JOIN w))\<lparr>ev_uuid := s_uuid (w_swim w)\<rparr>) addr addrlen w')"
  unfolding swim_cluster_join_def Let_def case_prod_unfold wp_rbind
  by (rule wp_swim_send_event) (simp_all add: known_type_def sends_def)

text \<open>An event as sent to the \<open>j\<close>-th node of the view.\<close>

definition node_datagram :: "Ext \<Rightarrow> SWIM \<Rightarrow> Event \<Rightarrow> nat \<Rightarrow> Datagram" where
  "node_datagram E s ev j =
     \<lparr>d_bytes = event_bytes (x_little_endian E) ev, d_addr = take (n_addrlen (info (view s ! j))) (n_addr (info (view s ! j)))\<rparr>"

lemma wp_send_to_node:
  assumes wf: "wf_swim E (w_swim w)" and j: "j < view_size (w_swim w)"
    and ev: "wf_event ev" "known_type (h_type (hdr ev))" "gossip_count ev \<le> 11"
  shows "wp Er (swim_send_event E ev (n_addr (info (view (w_swim w) ! j))) (n_addrlen (info (view (w_swim w) ! j))) w)
     (\<lambda>r. w_swim (snd r) = w_swim w \<and> w_sent (snd r) = w_sent w @ [node_datagram E (w_swim w) ev j])"
proof (rule wp_swim_send_event [OF ev])
  have nd: "wf_node (view (w_swim w) ! j)" using wf_swim_nth [OF wf j] by simp
  fix r :: int and w' assume "sends E w ev (n_addr (info (view (w_swim w) ! j))) (n_addrlen (info (view (w_swim w) ! j))) w'"
  from sends_node [OF nd this]
  show "w_swim (snd (r, w')) = w_swim w \<and> w_sent (snd (r, w')) = w_sent w @ [node_datagram E (w_swim w) ev j]"
    by (simp add: node_datagram_def)
qed

lemma wp_leave_step:
  assumes "wf_swim E (w_swim w)" "0 < view_size (w_swim w)"
    and "wf_event ev" "known_type (h_type (hdr ev))" "gossip_count ev \<le> 11"
  shows "wp Er (leave_step E ev pos i w) (\<lambda>w'. w_swim w' = w_swim w \<and>
           w_sent w' = w_sent w @ [node_datagram E (w_swim w) ev ((pos + i) mod view_size (w_swim w))])"
proof -
  let ?j = "(pos + i) mod view_size (w_swim w)"
  have j: "?j < view_size (w_swim w)" using assms(2) by simp
  then have "?j < length (view (w_swim w))" using wf_swimD(3) [OF assms(1)] by (rule less_le_trans)
  then show ?thesis
    using wp_send_to_node [OF assms(1) j assms(3-5)] by (simp add: leave_step_def Let_def case_prod_unfold)
qed

lemma wp_swim_cluster_leave:
  assumes wf: "wf_swim E (w_swim w)"
  shows "wp Er (swim_cluster_leave E w) (\<lambda>w'. w_swim w' = w_swim w \<and>
           (\<exists>ev. h_type (hdr ev) = EVENT_TYPE_LEAVE \<and> ev_uuid ev = 0 \<and> wf_event ev \<and> gossip_count ev = 0 \<and>
              w_sent w' = w_sent w @ map (\<lambda>i. node_datagram E (w_swim w) ev
                 ((x_rand E (w_rand w) mod view_size (w_swim w) + i) mod view_size (w_swim w)))
                 [0..<min (view_size (w_swim w)) SWIM_MAXLEAVE]))"
    (is "wp Er _ ?Q")
proof (cases "view_size (w_swim w) = 0")
  case True
  then show ?thesis
    by (auto simp: swim_cluster_leave_def intro!: exI [of _ "fst (swim_event_init E (zero_event 0) EVENT_TYPE_LEAVE w)"])
next
  case False
  let ?n = "view_size (w_swim w)" and ?w1 = "w\<lparr>w_rand := Suc (w_rand w)\<rparr>"
  define init where "init = swim_event_init E (zero_event 0) EVENT_TYPE_LEAVE ?w1"
  let ?ev = "fst init" and ?pos = "x_rand E (w_rand w) mod ?n"
  let ?I = "\<lambda>k (w' :: World). w_swim w' = w_swim w \<and>
     w_sent w' = w_sent w @ map (\<lambda>i. node_datagram E (w_swim w) ?ev ((?pos + i) mod ?n)) [0..<k]"
  have ev: "wf_event ?ev" "known_type (h_type (hdr ?ev))" "gossip_count ?ev \<le> 11"
    "w_swim (snd init) = w_swim w" "w_sent (snd init) = w_sent w"
    by (simp_all add: init_def known_type_def)
  have "wp Er (for_loop (leave_step E ?ev ?pos) [0..<min ?n SWIM_MAXLEAVE] (snd init)) (?I (min ?n SWIM_MAXLEAVE))"
  proof (rule wp_for_upt [where I = ?I])
    show "?I 0 (snd init)" using ev by simp
    fix k and w' :: World assume I: "?I k w'"
    show "wp Er (leave_step E ?ev ?pos k w') (?I (Suc k))"
      using wp_leave_step [of E w' ?ev Er ?pos k] I wf ev False by (auto elim!: wp_mono)
  qed
  moreover have "swim_cluster_leave E w = for_loop (leave_step E ?ev ?pos) [0..<min ?n SWIM_MAXLEAVE] (snd init)"
    using False ev(4) by (simp add: swim_cluster_leave_def c_rand_def Let_def init_def case_prod_unfold)
  ultimately have "wp Er (swim_cluster_leave E w) (?I (min ?n SWIM_MAXLEAVE))" by simp
  then show ?thesis
    by (rule wp_mono) (auto simp: init_def intro!: exI [of _ "fst (swim_event_init E (zero_event 0) EVENT_TYPE_LEAVE ?w1)"])
qed

lemma upd_node_id: "i < length (view s) \<Longrightarrow> f (view s ! i) = view s ! i \<Longrightarrow> upd_node i f s = s"
  by (simp add: upd_node_def list_update_same_conv)

lemma upd_node_cong: "f (view s ! i) = g (view s ! i) \<Longrightarrow> upd_node i f s = upd_node i g s"
  by (simp add: upd_node_def)

text \<open>The requests one heartbeat sends, each about some node of the view.\<close>

definition only_ping_reqs :: "Ext \<Rightarrow> uuid \<Rightarrow> nat \<Rightarrow> Datagram list \<Rightarrow> bool" where
  "only_ping_reqs E u n ds \<longleftrightarrow>
     (\<forall>d \<in> set ds. \<exists>s target. s_uuid s = u \<and> view_size s = n \<and> target < n \<and> ping_reqs E s target [d])"

lemma only_ping_reqsI:
  "ping_reqs E s target ds \<Longrightarrow> target < view_size s \<Longrightarrow> only_ping_reqs E (s_uuid s) (view_size s) ds"
  unfolding only_ping_reqs_def ping_reqs_def list.set ball_simps by blast

lemma only_ping_reqs_append [simp]:
  "only_ping_reqs E u n []"
  "only_ping_reqs E u n (ds @ ds') \<longleftrightarrow> only_ping_reqs E u n ds \<and> only_ping_reqs E u n ds'"
  by (auto simp: only_ping_reqs_def)

lemma wp_heartbeat_node:
  assumes wf: "wf_swim E (w_swim w)" and i: "i < view_size (w_swim w)"
    and Er: "null_allowed E Er"
  shows "wp Er (heartbeat_node E now i w) (\<lambda>w'. w_swim w' = upd_node i (age_node now) (w_swim w) \<and>
           (\<exists>ds. w_sent w' = w_sent w @ ds \<and> only_ping_reqs E (s_uuid (w_swim w)) (view_size (w_swim w)) ds))"
proof -
  let ?nd = "view (w_swim w) ! i"
  have il: "i < length (view (w_swim w))" using i wf_swimD(3) [OF wf] by simp
  show ?thesis
  proof (cases "node_status ?nd = SWIM_STATUS_ALIVE \<and> n_last_seen (info ?nd) \<le> now - 60")
    case True
    then have "upd_node i (age_node now) (w_swim w) = upd_node i (set_status SWIM_STATUS_SUSPECT) (w_swim w)"
      by (intro upd_node_cong) (simp add: age_node_def)
    moreover have "heartbeat_node E now i w = swim_cluster_suspect_dead E i w"
      using True il by (simp add: heartbeat_node_def Let_def)
    ultimately show ?thesis
      using wp_swim_cluster_suspect_dead [OF wf i Er]
        only_ping_reqsI [of E "upd_node i (set_status SWIM_STATUS_SUSPECT) (w_swim w)" i] i by (auto elim!: wp_mono)
  next
    case na: False
    show ?thesis
    proof (cases "node_status ?nd = SWIM_STATUS_SUSPECT \<and> n_last_seen (info ?nd) \<le> now - 120")
      case True
      then have "upd_node i (age_node now) (w_swim w) = upd_node i (set_status SWIM_STATUS_DEAD) (w_swim w)"
        by (intro upd_node_cong) (simp add: age_node_def)
      then show ?thesis
        using True il by (simp add: heartbeat_node_def Let_def swim_cluster_declare_dead_def)
    next
      case False
      then have "upd_node i (age_node now) (w_swim w) = w_swim w"
        using na il by (intro upd_node_id) (auto simp: age_node_def)
      moreover have "heartbeat_node E now i w = Inr w"
        using na False il by (auto simp: heartbeat_node_def Let_def split: Status.split)
      ultimately show ?thesis by simp
    qed
  qed
qed

text \<open>The effect of a heartbeat on the state: every node of the view is aged.\<close>

definition age_view :: "time_t \<Rightarrow> SWIM \<Rightarrow> SWIM" where
  "age_view now s = s\<lparr>view := map (age_node now) (nodes s) @ drop (view_size s) (view s)\<rparr>"

lemma wf_age_view: "wf_swim E s \<Longrightarrow> wf_swim E (age_view now s)"
proof -
  assume wf: "wf_swim E s"
  have l: "length (nodes s) = view_size s" using wf_swimD(3) [OF wf] by simp
  have nds: "nodes (age_view now s) = map (age_node now) (nodes s)"
    using l by (simp add: age_view_def)
  have w: "length (w_addr (age_node now nd)) = length (w_addr nd)" for nd by (simp add: age_node_def)
  have "ascending E (map (age_node now) (nodes s))"
    using wf_swimD(4) [OF wf] by (simp add: ascending_def sorted_wrt_map)
  moreover have "\<forall>nd \<in> set (view (age_view now s)). length (w_addr nd) = SIZEOF_STORAGE"
    using wf_swimD(7) [OF wf] w by (auto simp: age_view_def dest: in_set_takeD in_set_dropD)
  ultimately show ?thesis
    unfolding wf_swim_def nds using wf l
    by (auto simp: wf_swim_def age_view_def wf_probe_def image_iff)
qed

lemma age_view_prefix:
  assumes "k < view_size s" "view_size s \<le> length (view s)"
  shows "upd_node k (age_node now) (s\<lparr>view := map (age_node now) (take k (view s)) @ drop k (view s)\<rparr>)
         = s\<lparr>view := map (age_node now) (take (Suc k) (view s)) @ drop (Suc k) (view s)\<rparr>"
  using assms
  by (simp add: upd_node_def take_Suc_conv_app_nth list_update_append nth_append Cons_nth_drop_Suc [symmetric])

lemma wp_heartbeat_loop:
  assumes wf: "wf_swim E (w_swim w)" and Er: "null_allowed E Er"
  shows "wp Er (for_loop (heartbeat_node E now) [0..<view_size (w_swim w)] w) (\<lambda>w'.
           w_swim w' = age_view now (w_swim w) \<and>
           (\<exists>ds. w_sent w' = w_sent w @ ds \<and> only_ping_reqs E (s_uuid (w_swim w)) (view_size (w_swim w)) ds))"
proof -
  define s where "s = w_swim w"
  have vl: "view_size s \<le> length (view s)" using wf_swimD(3) [OF wf] by (simp add: s_def)
  let ?aged = "\<lambda>k. s\<lparr>view := map (age_node now) (take k (view s)) @ drop k (view s)\<rparr>"
  let ?I = "\<lambda>k (w' :: World). w_swim w' = ?aged k \<and> wf_swim E (w_swim w') \<and>
     (\<exists>ds. w_sent w' = w_sent w @ ds \<and> only_ping_reqs E (s_uuid s) (view_size s) ds)"
  have "wp Er (for_loop (heartbeat_node E now) [0..<view_size s] w) (?I (view_size s))"
  proof (rule wp_for_upt [where I = ?I])
    show "?I 0 w" using wf by (simp add: s_def)
    fix k and w' :: World assume k: "k < view_size s" and I: "?I k w'"
    then obtain ds where ds: "w_sent w' = w_sent w @ ds" "only_ping_reqs E (s_uuid s) (view_size s) ds" by blast
    have k': "k < view_size (w_swim w')" using k I by simp
    have step: "upd_node k (age_node now) (w_swim w') = ?aged (Suc k)"
      using I age_view_prefix [OF k vl] by simp
    have wf': "wf_swim E (w_swim w')" using I by blast
    have "wf_swim E (upd_node k (age_node now) (w_swim w'))"
      using wf_swim_nth [OF wf' k'] by (intro wf_upd_node [OF wf' k']) simp_all
    then have post: "?I (Suc k) w''" if "w_swim w'' = upd_node k (age_node now) (w_swim w')"
        "\<exists>ds. w_sent w'' = w_sent w' @ ds \<and> only_ping_reqs E (s_uuid s) (view_size s) ds" for w'' :: World
      using that step ds by auto
    show "wp Er (heartbeat_node E now k w') (?I (Suc k))"
      by (rule wp_mono [OF wp_heartbeat_node [OF wf' k' Er]]) (use I post in auto)
  qed
  then show ?thesis by (auto simp: s_def age_view_def elim!: wp_mono)
qed

lemma message_of_upd [simp]:
  "message_of (s\<lparr>probe := p\<rparr>) = message_of s"
  "message_of (s\<lparr>last_heartbeat := t\<rparr>) = message_of s"
  by (simp_all add: message_of_def gossip_of_def fun_eq_iff)

lemma node_datagram_upd [simp]:
  "node_datagram E (s\<lparr>probe := p\<rparr>) = node_datagram E s"
  "node_datagram E (s\<lparr>last_heartbeat := t\<rparr>) = node_datagram E s"
  by (simp_all add: node_datagram_def fun_eq_iff)

lemma wf_swim_last_heartbeat [simp]: "wf_swim E (s\<lparr>last_heartbeat := t\<rparr>) = wf_swim E s"
  by (simp add: wf_swim_def wf_probe_def)

text \<open>The ping of a heartbeat: at most one, to the node the probe schedule selects.\<close>

definition heartbeat_ping :: "Ext \<Rightarrow> SWIM \<Rightarrow> Datagram list \<Rightarrow> bool" where
  "heartbeat_ping E s ds \<longleftrightarrow> ds = [] \<or>
     (\<exists>i ev. probeable s i \<and> message_of s EVENT_TYPE_PING 0 ev \<and> ds = [node_datagram E s ev i])"

lemma wp_ping_node:
  assumes wf: "wf_swim E (w_swim w)" and i: "probeable (w_swim w) i" and Er: "null_allowed E Er"
  shows "wp Er (swim_send_ping E (n_addr (info (view (w_swim w) ! i))) (n_addrlen (info (view (w_swim w) ! i))) w)
           (\<lambda>r. w_swim (snd r) = w_swim w \<and> (\<exists>ds. w_sent (snd r) = w_sent w @ ds \<and> heartbeat_ping E (w_swim w) ds))"
proof (rule wp_swim_send_ping [OF wf])
  show "\<not> x_alloc E (w_alloc w) \<Longrightarrow> Er NullDeref" using Er by (auto simp: null_allowed_def)
  fix r :: int and ev w' assume ev: "message_of (w_swim w) EVENT_TYPE_PING 0 ev"
    and snd: "sends E w ev (n_addr (info (view (w_swim w) ! i))) (n_addrlen (info (view (w_swim w) ! i))) w'"
  have nd: "wf_node (view (w_swim w) ! i)" using wf_swim_nth [OF wf] i by (simp add: probeable_def)
  have "heartbeat_ping E (w_swim w) [node_datagram E (w_swim w) ev i]"
    using i ev by (auto simp: heartbeat_ping_def)
  then show "w_swim (snd (r, w')) = w_swim w \<and> (\<exists>ds. w_sent (snd (r, w')) = w_sent w @ ds \<and> heartbeat_ping E (w_swim w) ds)"
    using sends_node [OF nd snd] by (intro conjI exI [of _ "[node_datagram E (w_swim w) ev i]"]) (simp_all add: node_datagram_def)
qed

lemma heartbeat_ping_upd [simp]:
  "heartbeat_ping E (s\<lparr>probe := p\<rparr>) = heartbeat_ping E s"
  "heartbeat_ping E (s\<lparr>last_heartbeat := t\<rparr>) = heartbeat_ping E s"
  by (simp_all add: heartbeat_ping_def probeable_def fun_eq_iff)

definition heartbeat_due :: "time_t \<Rightarrow> SWIM \<Rightarrow> bool" where
  "heartbeat_due now s \<longleftrightarrow> 0 < view_size s \<and> last_heartbeat s + SWIM_HEARTBEAT_INTERVAL < now"

lemma wp_swim_cluster_heartbeat:
  assumes wf: "wf_swim E (w_swim w)" and Er: "null_allowed E Er"
  defines "now \<equiv> x_time E (w_time w)"
  shows "wp Er (swim_cluster_heartbeat E w) (\<lambda>w'. wf_swim E (w_swim w') \<and>
     (if heartbeat_due now (w_swim w) then
        \<exists>p pings reqs. w_swim w' = age_view now ((w_swim w)\<lparr>probe := p, last_heartbeat := now\<rparr>) \<and>
          w_sent w' = w_sent w @ pings @ reqs \<and> heartbeat_ping E (w_swim w) pings \<and>
          only_ping_reqs E (s_uuid (w_swim w)) (view_size (w_swim w)) reqs
      else w_swim w' = w_swim w \<and> w_sent w' = w_sent w))"
proof (cases "heartbeat_due now (w_swim w)")
  case False
  then have "swim_cluster_heartbeat E w = Inr (w\<lparr>w_time := Suc (w_time w)\<rparr>)"
    unfolding swim_cluster_heartbeat_def c_time_def now_def heartbeat_due_def by (simp only: Let_def prod.case) auto
  then show ?thesis using wf False by simp
next
  case True
  let ?w0 = "w\<lparr>w_time := Suc (w_time w)\<rparr>"
  obtain r p w1 where 1: "swim_probe_next E ?w0 = Inr (r, w1)" "w_swim w1 = (w_swim w)\<lparr>probe := p\<rparr>" "wf_swim E (w_swim w1)"
    "w_sent w1 = w_sent w" "\<forall>i. r = Some i \<longrightarrow> probeable (w_swim w) i"
    using swim_probe_next_ok [of E ?w0] wf by auto
  define w2 where "w2 = w1\<lparr>w_swim := (w_swim w1)\<lparr>last_heartbeat := now\<rparr>\<rparr>"
  have s2: "w_swim w2 = (w_swim w)\<lparr>probe := p, last_heartbeat := now\<rparr>" "w_sent w2 = w_sent w" and wf2: "wf_swim E (w_swim w2)"
    using 1 by (simp_all add: w2_def)
  have run: "swim_cluster_heartbeat E w
      = rbind (heartbeat_probe E r w2) (\<lambda>w. for_loop (heartbeat_node E now) [0..<view_size (w_swim w)] w)"
    using True 1(1) by (simp add: swim_cluster_heartbeat_def c_time_def now_def heartbeat_due_def Let_def w2_def)
  have ping: "wp Er (heartbeat_probe E r w2) (\<lambda>w3. w_swim w3 = w_swim w2 \<and> (\<exists>ds. w_sent w3 = w_sent w @ ds \<and> heartbeat_ping E (w_swim w) ds))"
  proof (cases r)
    case None
    then show ?thesis using s2 by (simp add: heartbeat_probe_def heartbeat_ping_def)
  next
    case (Some i)
    then have pi: "probeable (w_swim w2) i" using 1(5) s2 by (simp add: probeable_def)
    then have "i < length (view (w_swim w2))" using wf_swimD(3) [OF wf2] by (simp add: probeable_def)
    then show ?thesis
      using wp_ping_node [OF wf2 pi Er] s2 Some by (simp add: heartbeat_probe_def case_prod_unfold)
  qed
  show ?thesis
    unfolding run wp_rbind
  proof (rule wp_mono [OF ping], goal_cases)
    case (1 w3)
    then obtain ds where w3: "w_swim w3 = w_swim w2" "w_sent w3 = w_sent w @ ds" "heartbeat_ping E (w_swim w) ds" by blast
    have "wf_swim E (w_swim w3)" using w3 wf2 by simp
    from wp_heartbeat_loop [OF this Er, of now] show ?case
      by (rule wp_mono) (use w3 s2 True wf_age_view [OF wf2, of now] in auto)
  qed simp
qed

end
