(* ===== verification/Swim_Process.thy ===== *)
theory Swim_Process
  imports Swim_Cluster Swim_Gossip Swim_View
begin

text \<open>Event handlers: \<open>swim/process.c\<close>.\<close>

section \<open>Operations\<close>

definition gossip_step :: "Ext \<Rightarrow> NodeInfo \<Rightarrow> World \<Rightarrow> World result" where
  "gossip_step E ni w =
     rbind (c_assert (0 < n_last_seen ni \<and> n_status ni \<noteq> SWIM_STATUS_UNKNOWN)) (\<lambda>_.
     if x_uuid_compare E (n_uuid ni) (s_uuid (w_swim w)) = 0 then
       (case n_status ni of
          SWIM_STATUS_DEAD \<Rightarrow> Inl ExitFailure
        | SWIM_STATUS_SUSPECT \<Rightarrow>
            Inr (w\<lparr>w_swim := (w_swim w)\<lparr>s_incarnation := s_incarnation (w_swim w) + 1\<rparr>\<rparr>)
        | SWIM_STATUS_ALIVE \<Rightarrow> Inr w
        | SWIM_STATUS_UNKNOWN \<Rightarrow> Inr w
        | SWIM_STATUS_OTHER _ \<Rightarrow> swim_state_merge E ni w)
     else swim_state_merge E ni w)"

definition swim_process_gossip :: "Ext \<Rightarrow> NodeInfo list \<Rightarrow> nat \<Rightarrow> World \<Rightarrow> World result" where
  "swim_process_gossip E gs cnt w =
     for_loop (\<lambda>i w. if i < length gs then gossip_step E (gs ! i) w else Inl OutOfBounds) [0..<cnt] w"

definition swim_process_ping :: "Ext \<Rightarrow> Event \<Rightarrow> byte list \<Rightarrow> nat \<Rightarrow> World \<Rightarrow> World result" where
  "swim_process_ping E ev addr addrlen w =
     rbind (swim_send_ack E (s_uuid (w_swim w)) addr addrlen w) (\<lambda>(_, w).
     swim_process_gossip E (gossip ev) (gossip_count ev) w)"

definition swim_process_ping_req :: "Ext \<Rightarrow> Event \<Rightarrow> byte list \<Rightarrow> nat \<Rightarrow> World \<Rightarrow> World result" where
  "swim_process_ping_req E ev addr addrlen w =
     rbind (swim_state_suspect E (ev_uuid ev) addr addrlen (w_swim w)) (\<lambda>(p, s).
     let w = w\<lparr>w_swim := s\<rparr> in
     case p of
       None \<Rightarrow> Inr w
     | Some i \<Rightarrow>
         rbind (swim_send_ping E (n_addr (info (view s ! i))) (n_addrlen (info (view s ! i))) w) (\<lambda>(_, w).
         Inr w))"

definition ack_lookup :: "Ext \<Rightarrow> Event \<Rightarrow> byte list \<Rightarrow> nat \<Rightarrow> World \<Rightarrow> (nat option \<times> World) result" where
  "ack_lookup E ev addr addrlen w =
     (case swim_state_get_node E (w_swim w) (ev_uuid ev) of
        Some i \<Rightarrow> Inr (Some i, w)
      | None \<Rightarrow>
          rbind (swim_node_init (ev_uuid ev) addr addrlen) (\<lambda>ni.
          swim_state_add E (ni\<lparr>n_last_seen := h_time (hdr ev)\<rparr>) w))"

definition ack_refute :: "Ext \<Rightarrow> Event \<Rightarrow> nat \<Rightarrow> World \<Rightarrow> World result" where
  "ack_refute E ev i w =
     (let nd = view (w_swim w) ! i in
      case node_status nd of
        SWIM_STATUS_SUSPECT \<Rightarrow>
          rbind (if swim_node_has_witness nd then
                   rbind (swim_send_ack E (ev_uuid ev) (w_addr nd) (w_addrlen nd) w) (\<lambda>(_, w).
                   Inr (w\<lparr>w_swim := upd_node i swim_node_reset_witness (w_swim w)\<rparr>))
                 else Inr w) (\<lambda>w.
          Inr (swim_cluster_refuted_dead i w))
      | SWIM_STATUS_UNKNOWN \<Rightarrow> Inr (swim_cluster_refuted_dead i w)
      | SWIM_STATUS_DEAD \<Rightarrow> Inr w
      | SWIM_STATUS_ALIVE \<Rightarrow> Inr w
      | SWIM_STATUS_OTHER _ \<Rightarrow> Inr w)"

definition swim_process_ack :: "Ext \<Rightarrow> Event \<Rightarrow> byte list \<Rightarrow> nat \<Rightarrow> World \<Rightarrow> World result" where
  "swim_process_ack E ev addr addrlen w =
     (if x_uuid_compare E (ev_uuid ev) (s_uuid (w_swim w)) = 0 then Inr w
      else
        rbind (ack_lookup E ev addr addrlen w) (\<lambda>(p, w).
        case p of
          None \<Rightarrow> Inl NullDeref
        | Some i \<Rightarrow>
            rbind (ack_refute E ev i w) (\<lambda>w.
            swim_process_gossip E (gossip ev) (gossip_count ev) w)))"

definition forward_step :: "Ext \<Rightarrow> Event \<Rightarrow> nat \<Rightarrow> World \<Rightarrow> World result" where
  "forward_step E ev i w =
     (let nd = view (w_swim w) ! i in
      if i < length (view (w_swim w)) then
        rbind (swim_send_event E ev (n_addr (info nd)) (n_addrlen (info nd)) w) (\<lambda>(_, w). Inr w)
      else Inl OutOfBounds)"

definition join_address :: "byte list \<Rightarrow> nat \<Rightarrow> Event \<Rightarrow> Event result" where
  "join_address addr addrlen ev =
     (if join_addrlen ev = 0 then
        rbind (memcpy (join_addr ev) addr addrlen) (\<lambda>a.
        Inr (ev\<lparr>join_addrlen := addrlen, join_addr := a\<rparr>))
      else Inr ev)"

definition swim_process_join :: "Ext \<Rightarrow> Event \<Rightarrow> byte list \<Rightarrow> nat \<Rightarrow> World \<Rightarrow> World result" where
  "swim_process_join E ev addr addrlen w =
     (if x_uuid_compare E (s_uuid (w_swim w)) (ev_uuid ev) = 0 then Inr w
      else if swim_state_get_node E (w_swim w) (ev_uuid ev) \<noteq> None then Inr w
      else
        rbind (join_address addr addrlen ev) (\<lambda>ev.
        rbind (swim_node_init (ev_uuid ev) (join_addr ev) (join_addrlen ev)) (\<lambda>ni.
        let ni = ni\<lparr>n_status := SWIM_STATUS_ALIVE, n_last_seen := h_time (hdr ev)\<rparr> in
        rbind (c_assert (0 < n_last_seen ni \<and> n_status ni \<noteq> SWIM_STATUS_UNKNOWN)) (\<lambda>_.
        rbind (swim_state_add E ni w) (\<lambda>(_, w).
        rbind (for_loop (forward_step E ev) [0..<view_size (w_swim w)] w) (\<lambda>w.
        rbind (swim_send_ack E (s_uuid (w_swim w)) addr addrlen w) (\<lambda>(_, w).
        Inr w)))))))"

definition swim_process_leave :: "Ext \<Rightarrow> Event \<Rightarrow> byte list \<Rightarrow> nat \<Rightarrow> World \<Rightarrow> World result" where
  "swim_process_leave E ev addr addrlen w =
     (let w = w\<lparr>w_swim := snd (swim_state_del E (ev_uuid ev) (w_swim w))\<rparr> in
      rbind (swim_send_ack E (s_uuid (w_swim w)) addr addrlen w) (\<lambda>(_, w). Inr w))"

text \<open>The dispatch table has 18 entries; those without a handler are null.\<close>

definition swim_event_processing ::
  "EventType \<Rightarrow> (Ext \<Rightarrow> Event \<Rightarrow> byte list \<Rightarrow> nat \<Rightarrow> World \<Rightarrow> World result) option result" where
  "swim_event_processing ty =
     (case ty of
        EVENT_TYPE_PING \<Rightarrow> Inr (Some swim_process_ping)
      | EVENT_TYPE_PING_REQ \<Rightarrow> Inr (Some swim_process_ping_req)
      | EVENT_TYPE_ACK \<Rightarrow> Inr (Some swim_process_ack)
      | EVENT_TYPE_JOIN \<Rightarrow> Inr (Some swim_process_join)
      | EVENT_TYPE_LEAVE \<Rightarrow> Inr (Some swim_process_leave)
      | EVENT_TYPE_OTHER n \<Rightarrow> if n < 18 then Inr None else Inl OutOfBounds)"

definition swim_process_event :: "Ext \<Rightarrow> Event \<Rightarrow> byte list \<Rightarrow> nat \<Rightarrow> World \<Rightarrow> World result" where
  "swim_process_event E ev addr addrlen w =
     rbind (swim_event_processing (h_type (hdr ev))) (\<lambda>callback.
     rbind (swim_state_notice E (h_uuid (hdr ev)) (h_time (hdr ev)) (h_incarnation (hdr ev)) (w_swim w)) (\<lambda>(_, s).
     case callback of
       None \<Rightarrow> Inl NullDeref
     | Some f \<Rightarrow> f E ev addr addrlen (w\<lparr>w_swim := s\<rparr>)))"

section \<open>Gossip\<close>

definition gossip_error :: "uuid \<Rightarrow> NodeInfo \<Rightarrow> nat \<Rightarrow> cerr \<Rightarrow> bool" where
  "gossip_error self ni n e \<longleftrightarrow>
     e = AssertFailed \<and> \<not> seen_info ni \<or>
     e = ExitFailure \<and> seen_info ni \<and> n_uuid ni = self \<and> n_status ni = SWIM_STATUS_DEAD \<or>
     e = SignedOverflow \<and> 2 ^ 30 \<le> n"

text \<open>A record that the processing gets past.\<close>

definition tolerable :: "uuid \<Rightarrow> NodeInfo \<Rightarrow> bool" where
  "tolerable self ni \<longleftrightarrow> seen_info ni \<and> \<not> (n_uuid ni = self \<and> n_status ni = SWIM_STATUS_DEAD)"

text \<open>
  What the processing of events keeps: the invariant, the server's identity, a bound on the growth of
  the view, and, unless the event itself introduces such a record (\<open>g\<close> is false), that every record
  of the view has been seen: it has a time and a status, which \<open>swim_state_notice\<close> asserts of a sender.
\<close>

definition all_seen :: "SWIM \<Rightarrow> bool" where
  "all_seen s \<longleftrightarrow> (\<forall>ni \<in> ran (members s). seen_info ni)"

definition keeps :: "Ext \<Rightarrow> bool \<Rightarrow> World \<Rightarrow> nat \<Rightarrow> World \<Rightarrow> bool" where
  "keeps E g w k w' \<longleftrightarrow> wf_swim E (w_swim w') \<and> s_uuid (w_swim w') = s_uuid (w_swim w) \<and>
     view_size (w_swim w') \<le> view_size (w_swim w) + k \<and>
     (g \<and> all_seen (w_swim w) \<longrightarrow> all_seen (w_swim w'))"

lemma keeps_trans: "keeps E g w j w' \<Longrightarrow> keeps E g w' k w'' \<Longrightarrow> keeps E g w (j + k) w''"
  by (auto simp: keeps_def)

lemma all_seen_upd:
  "all_seen s \<Longrightarrow> members s' = (members s)(u \<mapsto> ni) \<Longrightarrow> seen_info ni \<Longrightarrow> all_seen s'"
  by (auto simp: all_seen_def ran_def split: if_splits)

lemma all_seenD: "all_seen s \<Longrightarrow> members s u = Some ni \<Longrightarrow> seen_info ni"
  by (auto simp: all_seen_def ran_def)

lemma seen_merge_info: "seen_info new \<Longrightarrow> seen_info old \<Longrightarrow> seen_info (merge_info new old)"
  by (simp add: seen_info_def merge_info_def max_def)

lemma all_seen_spec_merge:
  "all_seen s \<Longrightarrow> members s' = spec_merge u ni (members s) \<Longrightarrow> seen_info ni \<Longrightarrow> all_seen s'"
  by (auto simp: spec_merge_def all_seen_def ran_def split: option.splits if_splits intro: seen_merge_info)

lemma wf_swim_incarnation [simp]: "wf_swim E (s\<lparr>s_incarnation := i\<rparr>) = wf_swim E s"
  by (simp add: wf_swim_def wf_probe_def)

lemma all_seen_cong: "members s' = members s \<Longrightarrow> all_seen s' = all_seen s"
  by (simp add: all_seen_def)

lemma members_incarnation [simp]: "members (s\<lparr>s_incarnation := i\<rparr>) = members s"
  by (simp add: members_def)

context swim_env
begin

lemma wp_gossip_step:
  assumes wf: "wf_swim E (w_swim w)" and ni: "wf_info ni"
  shows "wp (gossip_error (s_uuid (w_swim w)) ni (view_size (w_swim w))) (gossip_step E ni w) (\<lambda>w'.
           keeps E g w 1 w' \<and> w_sent w' = w_sent w \<and> tolerable (s_uuid (w_swim w)) ni \<and>
           ((\<forall>k. x_alloc E k) \<longrightarrow> (members (w_swim w'), s_incarnation (w_swim w')) =
              spec_gossip (s_uuid (w_swim w)) ni (members (w_swim w), s_incarnation (w_swim w))))"
    (is "wp ?Er _ ?Q")
proof (cases "seen_info ni")
  case False
  then show ?thesis by (auto simp: gossip_step_def gossip_error_def seen_info_def)
next
  case seen: True
  have merge: "wp ?Er (swim_state_merge E ni w) ?Q"
    if "n_uuid ni = s_uuid (w_swim w) \<Longrightarrow> n_status ni \<noteq> SWIM_STATUS_SUSPECT \<and> n_status ni \<noteq> SWIM_STATUS_DEAD"
    by (rule wp_mono [OF swim_state_merge_spec [OF wf ni]])
      (use that seen in \<open>auto simp: keeps_def gossip_error_def spec_gossip_def tolerable_def
         intro: all_seen_spec_merge all_seen_cong [THEN iffD2]\<close>)
  have as: "0 < n_last_seen ni \<and> n_status ni \<noteq> SWIM_STATUS_UNKNOWN" using seen by (simp add: seen_info_def)
  show ?thesis
  proof (cases "n_uuid ni = s_uuid (w_swim w)")
    case False
    then show ?thesis using merge as by (simp add: gossip_step_def uc.cmp_eq)
  next
    case self: True
    show ?thesis
      using merge as self seen wf
      by (cases "n_status ni")
        (auto simp: gossip_step_def gossip_error_def keeps_def spec_gossip_def spec_merge_def tolerable_def all_seen_def)
  qed
qed

lemma wp_swim_process_gossip:
  assumes wf: "wf_swim E (w_swim w)" and cnt: "cnt \<le> length gs" and gs: "\<forall>ni \<in> set (take cnt gs). wf_info ni"
  shows "wp (\<lambda>e. \<exists>ni \<in> set (take cnt gs). gossip_error (s_uuid (w_swim w)) ni (view_size (w_swim w) + cnt) e)
           (swim_process_gossip E gs cnt w) (\<lambda>w'.
           keeps E g w cnt w' \<and> w_sent w' = w_sent w \<and> (\<forall>ni \<in> set (take cnt gs). tolerable (s_uuid (w_swim w)) ni) \<and>
           ((\<forall>k. x_alloc E k) \<longrightarrow> (members (w_swim w'), s_incarnation (w_swim w')) =
              fold (spec_gossip (s_uuid (w_swim w))) (take cnt gs) (members (w_swim w), s_incarnation (w_swim w))))"
    (is "wp ?Er _ _")
proof -
  let ?u = "s_uuid (w_swim w)"
  let ?I = "\<lambda>k (w' :: World). keeps E g w k w' \<and> w_sent w' = w_sent w \<and> (\<forall>ni \<in> set (take k gs). tolerable ?u ni) \<and>
     ((\<forall>k. x_alloc E k) \<longrightarrow> (members (w_swim w'), s_incarnation (w_swim w')) =
        fold (spec_gossip ?u) (take k gs) (members (w_swim w), s_incarnation (w_swim w)))"
  have "wp ?Er (for_loop (\<lambda>i w. if i < length gs then gossip_step E (gs ! i) w else Inl OutOfBounds) [0..<cnt] w) (?I cnt)"
  proof (rule wp_for_upt [where I = ?I])
    show "?I 0 w" using wf by (simp add: keeps_def)
    fix k and w' :: World assume k: "k < cnt" and I: "?I k w'"
    have kl: "k < length gs" using k cnt by simp
    have mem: "gs ! k \<in> set (take cnt gs)" using k cnt by (metis in_set_conv_nth length_take min.absorb2 nth_take)
    have wf': "wf_swim E (w_swim w')" "s_uuid (w_swim w') = ?u" "view_size (w_swim w') \<le> view_size (w_swim w) + cnt"
      using I k by (auto simp: keeps_def)
    have tk: "take (Suc k) gs = take k gs @ [gs ! k]" using kl by (simp add: take_Suc_conv_app_nth)
    have "wp ?Er (gossip_step E (gs ! k) w') (?I (Suc k))"
    proof (rule wp_mono [OF wp_gossip_step [OF wf'(1)]])
      show "wf_info (gs ! k)" using gs mem by blast
      show "?Er e" if "gossip_error (s_uuid (w_swim w')) (gs ! k) (view_size (w_swim w')) e" for e
        using that mem wf'(2,3) by (auto simp: gossip_error_def)
      fix w'' assume "keeps E g w' 1 w'' \<and> w_sent w'' = w_sent w' \<and> tolerable (s_uuid (w_swim w')) (gs ! k) \<and>
         ((\<forall>k. x_alloc E k) \<longrightarrow> (members (w_swim w''), s_incarnation (w_swim w'')) =
            spec_gossip (s_uuid (w_swim w')) (gs ! k) (members (w_swim w'), s_incarnation (w_swim w')))"
      then show "?I (Suc k) w''"
        using I wf'(2) keeps_trans [of E g w k w' 1 w''] by (simp add: tk)
    qed
    then show "wp ?Er (if k < length gs then gossip_step E (gs ! k) w' else Inl OutOfBounds) (?I (Suc k))"
      using kl by simp
  qed
  then show ?thesis by (simp add: swim_process_gossip_def)
qed

end

section \<open>Every handler keeps the invariant\<close>

text \<open>How the processing of one event may stop: at an assertion on what the packet or the view
  contains, by the deliberate exit of a server that is declared dead, or, where memory runs out or the
  view has grown to a billion nodes, by a null dereference or an overflow. An access outside an object
  is not among them.\<close>

definition proc_error :: "Ext \<Rightarrow> bool \<Rightarrow> nat \<Rightarrow> cerr \<Rightarrow> bool" where
  "proc_error E b n e \<longleftrightarrow> e = AssertFailed \<and> \<not> b \<or> e = ExitFailure \<or> e = NullDeref \<and> (\<exists>k. \<not> x_alloc E k) \<or>
     e = SignedOverflow \<and> 2 ^ 30 \<le> n + 12"

lemma null_allowed_proc_error [simp]: "null_allowed E (proc_error E b n)"
  by (auto simp: null_allowed_def proc_error_def)

definition seen_gossip :: "Event \<Rightarrow> bool" where
  "seen_gossip ev \<longleftrightarrow> (\<forall>ni \<in> set (take (gossip_count ev) (gossip ev)). seen_info ni)"

text \<open>An event that leaves every record of the view seen.\<close>

definition harmless :: "World \<Rightarrow> Event \<Rightarrow> bool" where
  "harmless w ev \<longleftrightarrow> 0 < h_time (hdr ev) \<and>
     (h_type (hdr ev) = EVENT_TYPE_ACK \<longrightarrow>
        ev_uuid ev = s_uuid (w_swim w) \<or> members (w_swim w) (ev_uuid ev) \<noteq> None)"

lemma gossip_proc_error: "gossip_error self ni m e \<Longrightarrow> m \<le> n + 12 \<Longrightarrow> (b \<Longrightarrow> seen_info ni) \<Longrightarrow> proc_error E b n e"
  by (auto simp: gossip_error_def proc_error_def)

lemma keeps_refl: "wf_swim E (w_swim w) \<Longrightarrow> w_swim w' = w_swim w \<Longrightarrow> keeps E g w k w'"
  by (simp add: keeps_def)

lemma keeps_mono: "keeps E g w j w' \<Longrightarrow> j \<le> k \<Longrightarrow> keeps E g w k w'"
  by (simp add: keeps_def)

lemma wp_send_ack_same:
  assumes "wf_swim E (w_swim w)" "null_allowed E Er"
  shows "wp Er (swim_send_ack E u addr addrlen w) (\<lambda>r. w_swim (snd r) = w_swim w)"
  by (rule wp_swim_send_ack [OF assms(1)]) (use assms(2) in \<open>auto simp: null_allowed_def sends_def\<close>)

lemma wp_send_ping_same:
  assumes "wf_swim E (w_swim w)" "null_allowed E Er"
  shows "wp Er (swim_send_ping E addr addrlen w) (\<lambda>r. w_swim (snd r) = w_swim w)"
  by (rule wp_swim_send_ping [OF assms(1)]) (use assms(2) in \<open>auto simp: null_allowed_def sends_def\<close>)

lemma wp_forward:
  assumes wf: "wf_swim E (w_swim w)" and ev: "wf_event ev" "known_type (h_type (hdr ev))" "gossip_count ev \<le> 11"
  shows "wp Er (for_loop (forward_step E ev) [0..<view_size (w_swim w)] w) (\<lambda>w'. w_swim w' = w_swim w \<and>
           w_sent w' = w_sent w @ map (node_datagram E (w_swim w) ev) [0..<view_size (w_swim w)])"
proof -
  let ?I = "\<lambda>k (w' :: World). w_swim w' = w_swim w \<and> w_sent w' = w_sent w @ map (node_datagram E (w_swim w) ev) [0..<k]"
  show ?thesis
  proof (rule wp_for_upt [where I = ?I])
    show "?I 0 w" by simp
    fix k and w' :: World assume k: "k < view_size (w_swim w)" and I: "?I k w'"
    have wf': "wf_swim E (w_swim w')" and k': "k < view_size (w_swim w')" using I wf k by simp_all
    have "k < length (view (w_swim w'))" using k' wf_swimD(3) [OF wf'] by simp
    then show "wp Er (forward_step E ev k w') (?I (Suc k))"
      using wp_send_to_node [OF wf' k' ev] I by (auto simp: forward_step_def Let_def case_prod_unfold elim!: wp_mono)
  qed
qed

context swim_env
begin

lemma keeps_upd:
  assumes wf: "wf_swim E (w_swim w)" and i: "i < view_size (w_swim w)" and w': "w_swim w' = upd_node i f (w_swim w)"
    and f: "node_uuid (f (view (w_swim w) ! i)) = node_uuid (view (w_swim w) ! i)" "wf_node (f (view (w_swim w) ! i))"
      "seen_info (info (view (w_swim w) ! i)) \<Longrightarrow> seen_info (info (f (view (w_swim w) ! i)))"
  shows "keeps E g w k w'"
proof -
  let ?u = "node_uuid (view (w_swim w) ! i)"
  have "swim_state_get_node E (w_swim w) ?u = Some i" using get_node_Some [OF wf] i by simp
  then have "members (w_swim w) ?u = Some (info (view (w_swim w) ! i))" using members_eq [OF wf] by simp
  then have "all_seen (w_swim w')" if "all_seen (w_swim w)"
    using all_seen_upd [OF that, of "w_swim w'" ?u "info (f (view (w_swim w) ! i))"] that f(3)
      members_upd_node [OF wf i, of f ?u] f(1) w' all_seenD by simp
  then show ?thesis
    using wf_upd_node [OF wf i, of f] f(1,2) w' by (simp add: keeps_def)
qed

lemma wp_gossip_keeps:
  assumes "wf_swim E (w_swim w)" "wf_event ev" "gossip_count ev \<le> 11" "view_size (w_swim w) \<le> n + 1"
    and "b \<Longrightarrow> seen_gossip ev"
  shows "wp (proc_error E b n) (swim_process_gossip E (gossip ev) (gossip_count ev) w) (\<lambda>w'. keeps E g w 11 w')"
  by (rule wp_mono [OF wp_swim_process_gossip [OF assms(1)]])
    (use assms in \<open>auto simp: wf_event_def seen_gossip_def intro: keeps_mono elim!: gossip_proc_error\<close>)

lemma wp_process_ping:
  assumes wf: "wf_swim E (w_swim w)" and ev: "wf_event ev" "gossip_count ev \<le> 11" "b \<Longrightarrow> seen_gossip ev"
  shows "wp (proc_error E b (view_size (w_swim w))) (swim_process_ping E ev addr addrlen w) (keeps E g w 12)"
  unfolding swim_process_ping_def wp_rbind
proof (rule wp_mono [OF wp_send_ack_same [OF wf null_allowed_proc_error]], goal_cases)
  case (1 r)
  then have "wp (proc_error E b (view_size (w_swim w))) (swim_process_gossip E (gossip ev) (gossip_count ev) (snd r)) (keeps E g (snd r) 11)"
    using wf ev by (intro wp_gossip_keeps) simp_all
  then show ?case using 1 by (auto simp: case_prod_unfold keeps_def elim!: wp_mono)
qed

lemma wp_process_ping_req:
  assumes wf: "wf_swim E (w_swim w)" and a: "addrlen \<le> SIZEOF_STORAGE" "addrlen \<le> length addr"
  shows "wp (proc_error E b n) (swim_process_ping_req E ev addr addrlen w) (keeps E g w 12)"
proof -
  obtain s' where s': "swim_state_suspect E (ev_uuid ev) addr addrlen (w_swim w) = Inr (swim_state_get_node E (w_swim w) (ev_uuid ev), s')"
    "wf_swim E s'" "s_uuid s' = s_uuid (w_swim w)" "view_size s' = view_size (w_swim w)"
    and m: "members s' = (case members (w_swim w) (ev_uuid ev) of None \<Rightarrow> members (w_swim w)
              | Some ni \<Rightarrow> (members (w_swim w))(ev_uuid ev \<mapsto> ni\<lparr>n_status := SWIM_STATUS_SUSPECT\<rparr>))"
    using swim_state_suspect_spec [OF wf a] by blast
  have seen: "all_seen s'" if "all_seen (w_swim w)"
    using that m all_seenD [OF that] all_seen_upd [OF that, of s' "ev_uuid ev"]
    by (cases "members (w_swim w) (ev_uuid ev)") (simp_all add: all_seen_def seen_info_def)
  have "wp (proc_error E b n) (swim_send_ping E x y (w\<lparr>w_swim := s'\<rparr>)) (\<lambda>r. w_swim (snd r) = s')" for x y
    using wp_send_ping_same [of E "w\<lparr>w_swim := s'\<rparr>" "proc_error E b n" x y] s'(2) by simp
  moreover have "keeps E g w 12 w'" if "w_swim w' = s'" for w' using s' that seen by (simp add: keeps_def)
  ultimately show ?thesis
    using s' by (cases "swim_state_get_node E (w_swim w) (ev_uuid ev)")
      (auto simp: swim_process_ping_req_def Let_def case_prod_unfold intro: wp_mono)
qed

lemma wp_ack_lookup:
  assumes wf: "wf_swim E (w_swim w)" and a: "addrlen \<le> SIZEOF_STORAGE" "addrlen \<le> length addr"
    and ne: "ev_uuid ev \<noteq> s_uuid (w_swim w)" and g: "g \<Longrightarrow> members (w_swim w) (ev_uuid ev) \<noteq> None"
  shows "wp (proc_error E b (view_size (w_swim w))) (ack_lookup E ev addr addrlen w) (\<lambda>(p, w'). keeps E g w 1 w' \<and>
           (case p of None \<Rightarrow> \<exists>k. \<not> x_alloc E k | Some i \<Rightarrow> i < view_size (w_swim w')))"
proof (cases "swim_state_get_node E (w_swim w) (ev_uuid ev)")
  case (Some i)
  then have "i < view_size (w_swim w)" using get_node_Some [OF wf] by simp
  then show ?thesis using wf Some by (simp add: ack_lookup_def keeps_def)
next
  case None
  then have m: "members (w_swim w) (ev_uuid ev) = None" using members_eq [OF wf] by simp
  have add: "wp (proc_error E b (view_size (w_swim w))) (swim_state_add E ni w) (\<lambda>(p, w'). keeps E g w 1 w' \<and>
           (case p of None \<Rightarrow> \<exists>k. \<not> x_alloc E k | Some i \<Rightarrow> i < view_size (w_swim w')))"
    if "wf_info ni" "n_uuid ni = ev_uuid ev" for ni
  proof (rule wp_mono [OF swim_state_add_spec [OF wf that(1)]], goal_cases)
    case (3 a)
    then show ?case using g m by (cases "fst a") (auto simp: case_prod_beta keeps_def)
  qed (use that ne m in \<open>auto simp: proc_error_def\<close>)
  have run: "ack_lookup E ev addr addrlen w =
      rbind (swim_node_init (ev_uuid ev) addr addrlen) (\<lambda>ni. swim_state_add E (ni\<lparr>n_last_seen := h_time (hdr ev)\<rparr>) w)"
    using None by (simp add: ack_lookup_def)
  show ?thesis
    unfolding run wp_rbind by (rule wp_swim_node_init [OF a], rule add) (simp_all add: wf_info_def)
qed

lemma keeps_refuted:
  assumes "wf_swim E (w_swim w)" "i < view_size (w_swim w)"
  shows "keeps E g w k (swim_cluster_refuted_dead i w)"
  by (rule keeps_upd [OF assms, where f = "\<lambda>nd. swim_node_reset_witness (set_status SWIM_STATUS_ALIVE nd)"])
    (use wf_swim_nth [OF assms] in \<open>simp_all add: swim_cluster_refuted_dead_def seen_info_def\<close>)

lemma wp_ack_refute:
  assumes wf: "wf_swim E (w_swim w)" and i: "i < view_size (w_swim w)"
  shows "wp (proc_error E b n) (ack_refute E ev i w) (keeps E g w 0)"
proof (cases "node_status (view (w_swim w) ! i) = SWIM_STATUS_SUSPECT \<and> swim_node_has_witness (view (w_swim w) ! i)")
  case False
  then show ?thesis
    using keeps_refuted [OF wf i] keeps_refl [OF wf]
    by (auto simp: ack_refute_def Let_def split: Status.split)
next
  case True
  let ?nd = "view (w_swim w) ! i"
  have "wp (proc_error E b n) (swim_send_ack E (ev_uuid ev) (w_addr ?nd) (w_addrlen ?nd) w) (\<lambda>r. w_swim (snd r) = w_swim w)"
    using wp_send_ack_same [OF wf null_allowed_proc_error] .
  moreover have "keeps E g w 0 (swim_cluster_refuted_dead i (w'\<lparr>w_swim := upd_node i swim_node_reset_witness (w_swim w')\<rparr>))"
    if "w_swim w' = w_swim w" for w'
  proof -
    let ?w = "w'\<lparr>w_swim := upd_node i swim_node_reset_witness (w_swim w')\<rparr>"
    have k: "keeps E g w 0 ?w"
      by (rule keeps_upd [OF wf i, where f = swim_node_reset_witness]) (use that wf_swim_nth [OF wf i] in simp_all)
    then have "keeps E g ?w 0 (swim_cluster_refuted_dead i ?w)"
      using i that by (intro keeps_refuted) (simp_all add: keeps_def)
    from keeps_trans [OF k this] show ?thesis by simp
  qed
  ultimately show ?thesis
    using True by (auto simp: ack_refute_def Let_def case_prod_unfold elim!: wp_mono)
qed

lemma wp_process_ack:
  assumes wf: "wf_swim E (w_swim w)" and ev: "wf_event ev" "gossip_count ev \<le> 11"
    and a: "addrlen \<le> SIZEOF_STORAGE" "addrlen \<le> length addr" and b: "b \<Longrightarrow> seen_gossip ev"
    and g: "g \<Longrightarrow> ev_uuid ev = s_uuid (w_swim w) \<or> members (w_swim w) (ev_uuid ev) \<noteq> None"
  shows "wp (proc_error E b (view_size (w_swim w))) (swim_process_ack E ev addr addrlen w) (keeps E g w 12)"
proof (cases "ev_uuid ev = s_uuid (w_swim w)")
  case True
  then show ?thesis using keeps_refl [OF wf] by (simp add: swim_process_ack_def uc.cmp_eq)
next
  case False
  let ?n = "view_size (w_swim w)"
  have rest: "wp (proc_error E b ?n) (case p of None \<Rightarrow> Inl NullDeref | Some i \<Rightarrow> rbind (ack_refute E ev i w1) (\<lambda>w.
                 swim_process_gossip E (gossip ev) (gossip_count ev) w)) (keeps E g w 12)"
    if k: "keeps E g w (Suc 0) w1" and p: "case p of None \<Rightarrow> \<exists>k. \<not> x_alloc E k | Some i \<Rightarrow> i < view_size (w_swim w1)" for p w1
  proof (cases p)
    case None
    then show ?thesis using p by (simp add: proc_error_def)
  next
    case (Some i)
    have wf1: "wf_swim E (w_swim w1)" "i < view_size (w_swim w1)" "view_size (w_swim w1) \<le> ?n + 1"
      using k p Some by (simp_all add: keeps_def)
    have "wp (proc_error E b ?n) (swim_process_gossip E (gossip ev) (gossip_count ev) w2) (keeps E g w 12)"
      if "keeps E g w1 0 w2" for w2
    proof -
      have "wp (proc_error E b ?n) (swim_process_gossip E (gossip ev) (gossip_count ev) w2) (keeps E g w2 11)"
        using that wf1 by (intro wp_gossip_keeps [OF _ ev _ b]) (simp_all add: keeps_def)
      moreover have "keeps E g w 1 w2" using keeps_trans [OF k that] by simp
      ultimately show ?thesis using keeps_trans [of E g w 1 w2 11] by (auto elim!: wp_mono)
    qed
    then show ?thesis
      using Some by (auto intro!: wp_mono [OF wp_ack_refute [OF wf1(1,2)]])
  qed
  show ?thesis
    using False by (simp add: swim_process_ack_def uc.cmp_eq)
      (rule wp_mono [OF wp_ack_lookup [where g = g, OF wf a False]], use g False in \<open>auto intro: rest\<close>)
qed

lemma join_address_ok:
  assumes "wf_event ev" "h_type (hdr ev) = EVENT_TYPE_JOIN" "addrlen \<le> SIZEOF_STORAGE" "addrlen \<le> length addr"
  obtains a where "join_address addr addrlen ev =
      Inr (ev\<lparr>join_addrlen := (if join_addrlen ev = 0 then addrlen else join_addrlen ev), join_addr := a\<rparr>)"
    "length a = SIZEOF_STORAGE"
    "wf_event (ev\<lparr>join_addrlen := (if join_addrlen ev = 0 then addrlen else join_addrlen ev), join_addr := a\<rparr>)"
    "take (if join_addrlen ev = 0 then addrlen else join_addrlen ev) a =
       (if join_addrlen ev = 0 then take addrlen addr else take (join_addrlen ev) (join_addr ev))"
proof (cases "join_addrlen ev = 0")
  case True
  then show ?thesis
    using assms that [of "take addrlen addr @ drop addrlen (join_addr ev)"]
    by (simp add: join_address_def memcpy_ok wf_event_def)
next
  case False
  then show ?thesis using assms that [of "join_addr ev"] by (simp add: join_address_def wf_event_def)
qed

lemma wp_process_join:
  assumes wf: "wf_swim E (w_swim w)" and ev: "wf_event ev" "gossip_count ev \<le> 11" "h_type (hdr ev) = EVENT_TYPE_JOIN"
    and a: "addrlen \<le> SIZEOF_STORAGE" "addrlen \<le> length addr" and b: "b \<Longrightarrow> 0 < h_time (hdr ev)"
  shows "wp (proc_error E b (view_size (w_swim w))) (swim_process_join E ev addr addrlen w) (keeps E g w 12)"
proof (cases "ev_uuid ev = s_uuid (w_swim w) \<or> swim_state_get_node E (w_swim w) (ev_uuid ev) \<noteq> None")
  case True
  then have "swim_process_join E ev addr addrlen w = Inr w" by (auto simp: swim_process_join_def uc.cmp_eq)
  then show ?thesis using keeps_refl [OF wf] by simp
next
  case False
  then have ne: "ev_uuid ev \<noteq> s_uuid (w_swim w)" and none: "swim_state_get_node E (w_swim w) (ev_uuid ev) = None"
    and c: "x_uuid_compare E (s_uuid (w_swim w)) (ev_uuid ev) \<noteq> 0" by (auto simp: uc.cmp_eq)
  have m: "members (w_swim w) (ev_uuid ev) = None" using members_eq [OF wf] none by simp
  let ?Er = "proc_error E b (view_size (w_swim w))"
  obtain c where c': "join_address addr addrlen ev =
      Inr (ev\<lparr>join_addrlen := (if join_addrlen ev = 0 then addrlen else join_addrlen ev), join_addr := c\<rparr>)"
    "length c = SIZEOF_STORAGE"
    "wf_event (ev\<lparr>join_addrlen := (if join_addrlen ev = 0 then addrlen else join_addrlen ev), join_addr := c\<rparr>)"
    using join_address_ok [OF ev(1,3) a] by metis
  define e where "e = ev\<lparr>join_addrlen := (if join_addrlen ev = 0 then addrlen else join_addrlen ev), join_addr := c\<rparr>"
  have e: "wf_event e" "known_type (h_type (hdr e))" "gossip_count e \<le> 11" "ev_uuid e = ev_uuid ev" "hdr e = hdr ev"
    "length (join_addr e) = SIZEOF_STORAGE" "join_addrlen e \<le> SIZEOF_STORAGE"
    using c' ev a by (auto simp: e_def known_type_def wf_event_def)
  have tail: "wp ?Er (for_loop (forward_step E e) [0..<view_size (w_swim w1)] w1) (\<lambda>w2.
        wp ?Er (swim_send_ack E (s_uuid (w_swim w2)) addr addrlen w2) (\<lambda>r. keeps E g w 12 (snd r)))"
    if k: "keeps E g w (Suc 0) w1" for w1
  proof -
    have wf1: "wf_swim E (w_swim w1)" using k by (simp add: keeps_def)
    have "wp ?Er (swim_send_ack E (s_uuid (w_swim w2)) addr addrlen w2) (\<lambda>r. keeps E g w 12 (snd r))" if "w_swim w2 = w_swim w1" for w2
      by (rule wp_mono [OF wp_send_ack_same [of E w2 ?Er]]) (use that wf1 k in \<open>auto simp: keeps_def\<close>)
    then show ?thesis by (intro wp_mono [OF wp_forward [OF wf1 e(1-3)]]) simp_all
  qed
  have add: "wp ?Er (swim_state_add E ni w) (\<lambda>r. keeps E g w 1 (snd r))" if "wf_info ni" "n_uuid ni = ev_uuid ev" "seen_info ni" for ni
  proof (rule wp_mono [OF swim_state_add_spec [OF wf that(1)]], goal_cases)
    case (3 r)
    then show ?case using that(3) by (cases "fst r") (auto simp: case_prod_beta keeps_def intro: all_seen_upd)
  qed (use that ne m in \<open>auto simp: proc_error_def\<close>)
  show ?thesis
    unfolding swim_process_join_def using c none c'(1)
    by (simp add: e_def [symmetric] Let_def)
      (rule wp_swim_node_init, use e b in \<open>auto simp: proc_error_def wf_info_def seen_info_def case_prod_unfold intro!: wp_mono [OF add] tail\<close>)
qed

lemma wp_process_leave:
  assumes wf: "wf_swim E (w_swim w)"
  shows "wp (proc_error E b n) (swim_process_leave E ev addr addrlen w) (keeps E g w 12)"
proof -
  let ?w = "w\<lparr>w_swim := snd (swim_state_del E (ev_uuid ev) (w_swim w))\<rparr>"
  have d: "wf_swim E (w_swim ?w)" "s_uuid (w_swim ?w) = s_uuid (w_swim w)" "view_size (w_swim ?w) = view_size (w_swim w)"
    using swim_state_del_spec [OF wf, of "ev_uuid ev"] by simp_all
  have "all_seen (w_swim ?w)" if "all_seen (w_swim w)"
    using swim_state_del_spec [OF wf, of "ev_uuid ev"] all_seenD [OF that] all_seen_upd [OF that, of "w_swim ?w" "ev_uuid ev"] that
    by (cases "members (w_swim w) (ev_uuid ev)") (simp_all add: all_seen_def seen_info_def)
  with d have "wp (proc_error E b n) (swim_send_ack E u addr addrlen ?w) (\<lambda>r. keeps E g w 12 (snd r))" for u
    by (intro wp_mono [OF wp_send_ack_same [of E ?w "proc_error E b n"]]) (auto simp: keeps_def)
  then show ?thesis by (simp add: swim_process_leave_def Let_def case_prod_unfold)
qed

lemma notice_keeps:
  assumes wf: "wf_swim E (w_swim w)" and b: "b \<Longrightarrow> all_seen (w_swim w)" and g: "g \<Longrightarrow> 0 < t"
  shows "wp (proc_error E b n) (swim_state_notice E u t inc (w_swim w)) (\<lambda>(_, s). keeps E g w 0 (w\<lparr>w_swim := s\<rparr>) \<and>
           dom (members s) = dom (members (w_swim w)))"
proof -
  obtain s' where s': "swim_state_notice E u t inc (w_swim w) =
           (case members (w_swim w) u of None \<Rightarrow> Inr (None, w_swim w)
            | Some ni \<Rightarrow> if seen_info ni then Inr (swim_state_get_node E (w_swim w) u, s') else Inl AssertFailed)"
    "wf_swim E s'" "s_uuid s' = s_uuid (w_swim w)" "view_size s' = view_size (w_swim w)"
    "members s' = (case members (w_swim w) u of None \<Rightarrow> members (w_swim w)
                   | Some ni \<Rightarrow> (members (w_swim w))(u \<mapsto> notice_info t inc ni))"
    using swim_state_notice_spec [OF wf] by blast
  show ?thesis
  proof (cases "members (w_swim w) u")
    case None
    then show ?thesis using s'(1) keeps_refl [OF wf] by simp
  next
    case (Some ni)
    have "seen_info (notice_info t inc ni)" if "seen_info ni" g
      using that g by (auto simp: notice_info_def seen_info_def split: Status.split)
    then have "all_seen s'" if "g" "all_seen (w_swim w)"
      using that all_seen_upd [OF that(2), of s' u] s'(5) Some all_seenD by simp
    then show ?thesis
      using s' Some b all_seenD [of "w_swim w" u ni] by (auto simp: keeps_def proc_error_def)
  qed
qed

lemma wp_swim_process_event:
  assumes wf: "wf_swim E (w_swim w)" and ev: "wf_event ev" "known_type (h_type (hdr ev))" "gossip_count ev \<le> 11"
    and a: "addrlen \<le> SIZEOF_STORAGE" "addrlen \<le> length addr"
  shows "wp (proc_error E (all_seen (w_swim w) \<and> 0 < h_time (hdr ev) \<and> seen_gossip ev) (view_size (w_swim w)))
           (swim_process_event E ev addr addrlen w) (keeps E (harmless w ev) w 12)"
    (is "wp (proc_error E ?b ?n) _ (keeps E ?g w 12)")
proof -
  let ?notice = "swim_state_notice E (h_uuid (hdr ev)) (h_time (hdr ev)) (h_incarnation (hdr ev)) (w_swim w)"
  have handler: "wp (proc_error E ?b ?n) (f E ev addr addrlen w1) (keeps E ?g w 12)"
    if k: "keeps E ?g w 0 w1" and d: "dom (members (w_swim w1)) = dom (members (w_swim w))"
      and f: "swim_event_processing (h_type (hdr ev)) = Inr (Some f)" for f w1
  proof -
    have wf1: "wf_swim E (w_swim w1)" and n1: "view_size (w_swim w1) \<le> ?n" and u1: "s_uuid (w_swim w1) = s_uuid (w_swim w)"
      using k by (simp_all add: keeps_def)
    have g: "ev_uuid ev = s_uuid (w_swim w1) \<or> members (w_swim w1) (ev_uuid ev) \<noteq> None"
      if "?g" "h_type (hdr ev) = EVENT_TYPE_ACK"
      using that d u1 by (auto simp: harmless_def dom_def set_eq_iff)
    have "wp (proc_error E ?b (view_size (w_swim w1))) (f E ev addr addrlen w1) (keeps E ?g w1 12)"
    proof (cases "h_type (hdr ev)")
      case EVENT_TYPE_PING
      then show ?thesis using f wp_process_ping [OF wf1 ev(1,3)] by (simp add: swim_event_processing_def)
    next
      case EVENT_TYPE_ACK
      then show ?thesis using f wp_process_ack [OF wf1 ev(1,3) a _ g] by (simp add: swim_event_processing_def)
    next
      case EVENT_TYPE_PING_REQ
      then show ?thesis using f wp_process_ping_req [OF wf1 a] by (simp add: swim_event_processing_def)
    next
      case EVENT_TYPE_JOIN
      then show ?thesis using f wp_process_join [OF wf1 ev(1,3) EVENT_TYPE_JOIN a] by (simp add: swim_event_processing_def)
    next
      case EVENT_TYPE_LEAVE
      then show ?thesis using f wp_process_leave [OF wf1] by (simp add: swim_event_processing_def)
    next
      case (EVENT_TYPE_OTHER m)
      then show ?thesis using ev(2) by (simp add: known_type_def)
    qed
    then show ?thesis
      by (rule wp_mono) (use keeps_trans [OF k] n1 in \<open>auto simp: proc_error_def\<close>)
  qed
  obtain f where f: "swim_event_processing (h_type (hdr ev)) = Inr (Some f)"
    using ev(2) by (cases "h_type (hdr ev)") (auto simp: swim_event_processing_def known_type_def)
  have t: "0 < h_time (hdr ev)" if ?g using that by (simp add: harmless_def)
  show ?thesis
    unfolding swim_process_event_def f
  proof (simp, rule wp_mono [OF notice_keeps [where g = ?g and b = ?b, OF wf]], goal_cases)
    case (3 r)
    then show ?case using handler [OF _ _ f, of "w\<lparr>w_swim := snd r\<rparr>"] by (simp add: case_prod_unfold)
  qed (use t in auto)
qed

end

end
