(* ===== verification/Swim_Handlers.thy ===== *)
theory Swim_Handlers
  imports Swim_Process Swim_Wire
begin

text \<open>
  What the event handlers of \<open>swim/process.c\<close> do: that no event makes them access memory outside its
  objects, that gossip is merged as the abstract view prescribes and therefore converges, and what
  each handler changes and sends.
\<close>

section \<open>Examples\<close>

lemma all_seen_sample [simp]: "all_seen sample_swim"
  by (auto simp: all_seen_def members_sample ran_def seen_info_def zero_info_def)

lemma seen_sample_event [simp]: "seen_gossip (sample_event ty)"
  by (simp add: seen_gossip_def seen_info_def)

lemma gossip_view:
  assumes "swim_env E" "wf_swim E (w_swim w)" "cnt \<le> length gs" "\<forall>ni \<in> set (take cnt gs). wf_info ni"
    and "\<forall>ni \<in> set (take cnt gs). tolerable (s_uuid (w_swim w)) ni"
    and "\<forall>k. x_alloc E k" "view_size (w_swim w) + cnt < 2 ^ 30"
  shows "\<exists>w'. swim_process_gossip E gs cnt w = Inr w' \<and> wf_swim E (w_swim w') \<and>
           w_sent w' = w_sent w \<and> members (w_swim w') = fold (spec_merge (s_uuid (w_swim w))) (take cnt gs) (members (w_swim w)) \<and>
           (members (w_swim w'), s_incarnation (w_swim w')) =
             fold (spec_gossip (s_uuid (w_swim w))) (take cnt gs) (members (w_swim w), s_incarnation (w_swim w))"
proof -
  have "\<not> (\<exists>ni \<in> set (take cnt gs). gossip_error (s_uuid (w_swim w)) ni (view_size (w_swim w) + cnt) e)" for e
    using assms(5,7) by (auto simp: gossip_error_def tolerable_def)
  from wp_exists [OF swim_env.wp_swim_process_gossip [where g = True, OF assms(1-4)] this]
  obtain w' where w': "swim_process_gossip E gs cnt w = Inr w'" "wf_swim E (w_swim w')" "w_sent w' = w_sent w"
    "(members (w_swim w'), s_incarnation (w_swim w')) =
       fold (spec_gossip (s_uuid (w_swim w))) (take cnt gs) (members (w_swim w), s_incarnation (w_swim w))"
    using assms(6) by (auto simp: keeps_def)
  then show ?thesis using fst_fold_spec_gossip by (metis fst_conv)
qed

text \<open>With memory available, a message is sent.\<close>

lemma send_ack_ok:
  assumes "wf_swim E (w_swim w)" "\<forall>k. x_alloc E k"
  obtains r ack w' where "swim_send_ack E u addr addrlen w = Inr (r, w')"
    "message_of (w_swim w) EVENT_TYPE_ACK u ack" "sends E w ack addr addrlen w'"
proof -
  have "wp (\<lambda>_. False) (swim_send_ack E u addr addrlen w)
     (\<lambda>r. \<exists>ack. message_of (w_swim w) EVENT_TYPE_ACK u ack \<and> sends E w ack addr addrlen (snd r))"
    by (rule wp_swim_send_ack [OF assms(1)]) (use assms(2) in auto)
  from wp_exists [OF this] show thesis using that by auto
qed

lemma send_ping_ok:
  assumes "wf_swim E (w_swim w)" "\<forall>k. x_alloc E k"
  obtains r ping w' where "swim_send_ping E addr addrlen w = Inr (r, w')"
    "message_of (w_swim w) EVENT_TYPE_PING 0 ping" "sends E w ping addr addrlen w'"
proof -
  have "wp (\<lambda>_. False) (swim_send_ping E addr addrlen w)
     (\<lambda>r. \<exists>ping. message_of (w_swim w) EVENT_TYPE_PING 0 ping \<and> sends E w ping addr addrlen (snd r))"
    by (rule wp_swim_send_ping [OF assms(1)]) (use assms(2) in auto)
  from wp_exists [OF this] show thesis using that by auto
qed

lemma ack_refute_other:
  assumes "swim_env E" "wf_swim E (w_swim w)" "\<forall>k. x_alloc E k" "i < view_size (w_swim w)" "node_uuid (view (w_swim w) ! i) \<noteq> u"
  shows "\<exists>w'. ack_refute E ev i w = Inr w' \<and> wf_swim E (w_swim w') \<and> members (w_swim w') u = members (w_swim w) u \<and>
     s_uuid (w_swim w') = s_uuid (w_swim w) \<and> view_size (w_swim w') = view_size (w_swim w)"
proof -
  let ?nd = "view (w_swim w) ! i"
  have nd: "wf_node ?nd" using wf_swim_nth [OF assms(2,4)] by simp
  have upd: "wf_swim E (upd_node i f (w_swim w)) \<and> members (upd_node i f (w_swim w)) u = members (w_swim w) u"
    if "node_uuid (f ?nd) = node_uuid ?nd" "wf_node (f ?nd)" for f
    using wf_upd_node [OF assms(2,4), of f] swim_env.members_upd_node [OF assms(1,2,4), of f] assms(5) that by simp
  let ?f = "\<lambda>nd. swim_node_reset_witness (set_status SWIM_STATUS_ALIVE nd)"
  have twice: "upd_node i ?f (upd_node i swim_node_reset_witness (w_swim w)) = upd_node i (?f \<circ> swim_node_reset_witness) (w_swim w)"
    using assms(4) wf_swimD(3) [OF assms(2)] by (simp add: upd_node_def)
  obtain r ack w' where snd: "swim_send_ack E (ev_uuid ev) (w_addr ?nd) (w_addrlen ?nd) w = Inr (r, w')" "w_swim w' = w_swim w"
    by (rule send_ack_ok [OF assms(2,3)]) (auto simp: sends_def)
  have once: "\<exists>w'. Inr (swim_cluster_refuted_dead i w) = (Inr w' :: World result) \<and> wf_swim E (w_swim w') \<and> members (w_swim w') u = members (w_swim w) u \<and>
     s_uuid (w_swim w') = s_uuid (w_swim w) \<and> view_size (w_swim w') = view_size (w_swim w)"
    using upd [of ?f] nd by (simp add: swim_cluster_refuted_dead_def)
  have again: "wf_swim E (w_swim x) \<and> members (w_swim x) u = members (w_swim w) u \<and>
     s_uuid (w_swim x) = s_uuid (w_swim w) \<and> view_size (w_swim x) = view_size (w_swim w)"
    if "x = swim_cluster_refuted_dead i (w'\<lparr>w_swim := upd_node i swim_node_reset_witness (w_swim w')\<rparr>)" for x
    using upd [of "?f \<circ> swim_node_reset_witness"] nd snd(2) twice that by (simp add: swim_cluster_refuted_dead_def)
  show ?thesis
    using assms(2) once again snd(1)
    by (cases "node_status ?nd"; cases "swim_node_has_witness ?nd") (auto simp: ack_refute_def Let_def)
qed

lemma unseen_sender_aborts:
  assumes "swim_env E" "wf_swim E (w_swim w)" "known_type (h_type (hdr ev))"
    and "members (w_swim w) (h_uuid (hdr ev)) = Some ni" "\<not> seen_info ni"
  shows "swim_process_event E ev addr addrlen w = Inl AssertFailed"
proof -
  have "swim_state_notice E (h_uuid (hdr ev)) (h_time (hdr ev)) (h_incarnation (hdr ev)) (w_swim w) = Inl AssertFailed"
    using swim_env.swim_state_notice_spec [OF assms(1,2), of "h_uuid (hdr ev)" "h_time (hdr ev)" "h_incarnation (hdr ev)"] assms(4,5)
    by auto
  then show ?thesis
    using assms(3) by (cases "h_type (hdr ev)") (simp_all add: swim_process_event_def swim_event_processing_def)
qed

text \<open>What the handler of a join event forwards: the event with the sender's address filled in.\<close>

definition joined_event :: "byte list \<Rightarrow> nat \<Rightarrow> Event \<Rightarrow> Event \<Rightarrow> bool" where
  "joined_event addr addrlen ev e \<longleftrightarrow> wf_event e \<and> hdr e = hdr ev \<and> ev_uuid e = ev_uuid ev \<and>
     gossip_count e = gossip_count ev \<and> gossip e = gossip ev \<and>
     join_addrlen e = (if join_addrlen ev = 0 then addrlen else join_addrlen ev) \<and>
     take (join_addrlen e) (join_addr e) = (if join_addrlen ev = 0 then take addrlen addr else take (join_addrlen ev) (join_addr ev))"

lemma join_new:
  assumes E: "swim_env E" and wf: "wf_swim E (w_swim w)"
    and ev: "wf_event ev" "gossip_count ev \<le> 11" "h_type (hdr ev) = EVENT_TYPE_JOIN" "0 < h_time (hdr ev)"
    and a: "addrlen \<le> SIZEOF_STORAGE" "addrlen \<le> length addr" and mem: "\<forall>k. x_alloc E k" "view_size (w_swim w) < 2 ^ 30"
    and new: "ev_uuid ev \<noteq> s_uuid (w_swim w)" "members (w_swim w) (ev_uuid ev) = None"
  shows "\<exists>e ni ack w'. swim_process_join E ev addr addrlen w = Inr w' \<and> joined_event addr addrlen ev e \<and> wf_swim E (w_swim w') \<and>
           members (w_swim w') = (members (w_swim w))(ev_uuid ev \<mapsto> ni) \<and> view_size (w_swim w') = Suc (view_size (w_swim w)) \<and>
           n_status ni = SWIM_STATUS_ALIVE \<and> n_last_seen ni = h_time (hdr ev) \<and>
           take (n_addrlen ni) (n_addr ni) = take (join_addrlen e) (join_addr e) \<and>
           message_of (w_swim w') EVENT_TYPE_ACK (s_uuid (w_swim w)) ack \<and>
           w_sent w' = w_sent w @ map (node_datagram E (w_swim w') e) [0..<view_size (w_swim w')] @
             [\<lparr>d_bytes = event_bytes (x_little_endian E) ack, d_addr = take addrlen addr\<rparr>]"
proof -
  obtain e where e: "join_address addr addrlen ev = Inr e" "joined_event addr addrlen ev e" "length (join_addr e) = SIZEOF_STORAGE"
    by (rule swim_env.join_address_ok [OF E ev(1,3) a]) (auto simp: joined_event_def)
  have ek: "wf_event e" "known_type (h_type (hdr e))" "gossip_count e \<le> 11" "ev_uuid e = ev_uuid ev" "hdr e = hdr ev"
    "join_addrlen e \<le> SIZEOF_STORAGE"
    using e ev by (auto simp: joined_event_def wf_event_def)
  obtain ni0 where ni0: "swim_node_init (ev_uuid ev) (join_addr e) (join_addrlen e) = Inr ni0" "wf_info ni0" "n_uuid ni0 = ev_uuid ev"
    "take (n_addrlen ni0) (n_addr ni0) = take (join_addrlen e) (join_addr e)"
    using wp_exists [OF wp_swim_node_init [of "join_addrlen e" "join_addr e" "ev_uuid ev" "\<lambda>ni. wf_info ni \<and> n_uuid ni = ev_uuid ev \<and>
        take (n_addrlen ni) (n_addr ni) = take (join_addrlen e) (join_addr e)" "\<lambda>_. False"]] ek(6) e(3) by auto
  define ni where "ni = ni0\<lparr>n_status := SWIM_STATUS_ALIVE, n_last_seen := h_time (hdr ev)\<rparr>"
  have ni: "wf_info ni" "n_uuid ni = ev_uuid ev" using ni0 by (simp_all add: ni_def wf_info_def)
  obtain w1 where w1: "swim_state_add E ni w = Inr (Some (view_size (w_swim w)), w1)" "wf_swim E (w_swim w1)" "w_sent w1 = w_sent w"
    "s_uuid (w_swim w1) = s_uuid (w_swim w)"
    "view_size (w_swim w1) = Suc (view_size (w_swim w))" "members (w_swim w1) = (members (w_swim w))(ev_uuid ev \<mapsto> ni)"
    using wp_exists [OF swim_env.swim_state_add_spec [OF E wf ni(1)]] mem ni(2) new by (auto split: option.splits)
  obtain w2 where w2: "for_loop (forward_step E e) [0..<view_size (w_swim w1)] w1 = Inr w2" "w_swim w2 = w_swim w1"
    "w_sent w2 = w_sent w1 @ map (node_datagram E (w_swim w1) e) [0..<view_size (w_swim w1)]"
    using wp_exists [OF wp_forward [OF w1(2) ek(1-3), of "\<lambda>_. False"]] by auto
  obtain r ack w3 where w3: "swim_send_ack E (s_uuid (w_swim w2)) addr addrlen w2 = Inr (r, w3)"
    "message_of (w_swim w2) EVENT_TYPE_ACK (s_uuid (w_swim w2)) ack" "sends E w2 ack addr addrlen w3"
    by (rule send_ack_ok [of E w2 "s_uuid (w_swim w2)" addr addrlen]) (use w2(2) w1(2) mem in simp_all)
  have "swim_state_get_node E (w_swim w) (ev_uuid ev) = None" "x_uuid_compare E (s_uuid (w_swim w)) (ev_uuid ev) \<noteq> 0"
    using swim_env.members_eq [OF E wf, of "ev_uuid ev"] new key_compare.cmp_eq [OF swim_env.compare [OF E]] by auto
  then have "swim_process_join E ev addr addrlen w = Inr w3"
    using e(1) ni0(1) w1(1) w2(1) w3(1) ek(4,5) ev(4) by (simp add: swim_process_join_def ni_def Let_def)
  with e(2) w1 w2(2,3) w3(2,3) a ni0(4) show ?thesis
    by (intro exI [of _ e] exI [of _ ni] exI [of _ ack] exI [of _ w3]) (simp add: sends_def ni_def)
qed

lemma join_known:
  assumes "swim_env E" "wf_swim E (w_swim w)" "ev_uuid ev = s_uuid (w_swim w) \<or> members (w_swim w) (ev_uuid ev) \<noteq> None"
  shows "swim_process_join E ev addr addrlen w = Inr w"
  using assms(3) swim_env.members_eq [OF assms(1,2), of "ev_uuid ev"] key_compare.cmp_eq [OF swim_env.compare [OF assms(1)]]
  by (auto simp: swim_process_join_def)

section \<open>Properties: events\<close>

text \<open>C5: Processing a well-formed event of a known type, from an address that fits its object, never
  accesses an array or an object out of range. It stops only at an assertion, by the deliberate exit, or
  (when memory runs out, or with a billion nodes) at a null pointer or an overflow; when it returns, the
  representation invariant holds and the server has kept its identity.\<close>

theorem process_event_safe:
  assumes "swim_env E" "wf_swim E (w_swim w)" "wf_event ev" "known_type (h_type (hdr ev))" "gossip_count ev \<le> 11"
    and "addrlen \<le> SIZEOF_STORAGE" "addrlen \<le> length addr"
  shows "case swim_process_event E ev addr addrlen w of
      Inl e \<Rightarrow> e = AssertFailed \<or> e = ExitFailure \<or> e = NullDeref \<and> (\<exists>k. \<not> x_alloc E k) \<or>
              e = SignedOverflow \<and> 2 ^ 30 \<le> view_size (w_swim w) + 12
    | Inr w' \<Rightarrow> wf_swim E (w_swim w') \<and> s_uuid (w_swim w') = s_uuid (w_swim w) \<and>
              view_size (w_swim w') \<le> view_size (w_swim w) + 12"
  using swim_env.wp_swim_process_event [OF assms]
  by (auto simp: wp_def keeps_def proc_error_def split: sum.splits)

theorem process_event_safe_witness:
  "case swim_process_event calm_env (sample_event EVENT_TYPE_PING) zero_storage 16 sample_world of
      Inl e \<Rightarrow> e = AssertFailed \<or> e = ExitFailure
    | Inr w' \<Rightarrow> wf_swim calm_env (w_swim w')"
  using process_event_safe [OF calm.swim_env_axioms, of sample_world "sample_event EVENT_TYPE_PING" 16 zero_storage]
  by (auto split: sum.splits)

text \<open>C14: While every record of the view has been seen (it has a time and a status), an event with a time,
  whose gossip has been seen, and which is not an acknowledgement about an unknown node, cannot abort the
  server: the handler returns with every record seen again, or the server exits because the gossip
  declares it dead.\<close>

theorem process_event_no_abort:
  assumes "swim_env E" "wf_swim E (w_swim w)" "wf_event ev" "known_type (h_type (hdr ev))" "gossip_count ev \<le> 11"
    and "addrlen \<le> SIZEOF_STORAGE" "addrlen \<le> length addr"
    and "all_seen (w_swim w)" "harmless w ev" "seen_gossip ev" "\<forall>k. x_alloc E k" "view_size (w_swim w) + 12 < 2 ^ 30"
  shows "(\<exists>w'. swim_process_event E ev addr addrlen w = Inr w' \<and> wf_swim E (w_swim w') \<and> all_seen (w_swim w')) \<or>
         swim_process_event E ev addr addrlen w = Inl ExitFailure"
proof -
  have "0 < h_time (hdr ev)" using assms(9) by (simp add: harmless_def)
  then show ?thesis
    using swim_env.wp_swim_process_event [OF assms(1-7)] assms(8-12)
    by (cases "swim_process_event E ev addr addrlen w") (auto simp: keeps_def proc_error_def)
qed

theorem process_event_no_abort_witness:
  "(\<exists>w'. swim_process_event calm_env (sample_event EVENT_TYPE_ACK) zero_storage 16 sample_world = Inr w' \<and>
      wf_swim calm_env (w_swim w') \<and> all_seen (w_swim w')) \<or>
   swim_process_event calm_env (sample_event EVENT_TYPE_ACK) zero_storage 16 sample_world = Inl ExitFailure"
  by (rule process_event_no_abort [OF calm.swim_env_axioms]) (simp_all add: harmless_def members_sample)

section \<open>Properties: gossip\<close>

text \<open>C8: Processing gossip, with memory available, refines the abstract merge: if every record has been
  seen and none declares the server itself dead, the handler returns, and the view as a map, together with
  the server's incarnation number, is the result of taking in the records one after the other.\<close>

theorem gossip_refines:
  assumes "swim_env E" "wf_swim E (w_swim w)" "cnt \<le> length gs" "\<forall>ni \<in> set (take cnt gs). wf_info ni"
    and "\<forall>ni \<in> set (take cnt gs). tolerable (s_uuid (w_swim w)) ni"
    and "\<forall>k. x_alloc E k" "view_size (w_swim w) + cnt < 2 ^ 30"
  shows "\<exists>w'. swim_process_gossip E gs cnt w = Inr w' \<and> wf_swim E (w_swim w') \<and>
           (members (w_swim w'), s_incarnation (w_swim w')) =
             fold (spec_gossip (s_uuid (w_swim w))) (take cnt gs) (members (w_swim w), s_incarnation (w_swim w))"
  using gossip_view [OF assms] by blast

theorem gossip_refines_witness:
  "\<exists>w'. swim_process_gossip calm_env [sample_info 4 0 SWIM_STATUS_ALIVE 995, sample_info 7 0 SWIM_STATUS_SUSPECT 990] 2 sample_world = Inr w' \<and>
     members (w_swim w') 4 = Some (sample_info 4 0 SWIM_STATUS_ALIVE 995) \<and> s_incarnation (w_swim w') = 1"
proof -
  let ?gs = "[sample_info 4 0 SWIM_STATUS_ALIVE 995, sample_info 7 0 SWIM_STATUS_SUSPECT 990]"
  have "\<exists>w'. swim_process_gossip calm_env ?gs 2 sample_world = Inr w' \<and> wf_swim calm_env (w_swim w') \<and>
           (members (w_swim w'), s_incarnation (w_swim w')) =
             fold (spec_gossip (s_uuid (w_swim sample_world))) (take 2 ?gs) (members (w_swim sample_world), s_incarnation (w_swim sample_world))"
    by (rule gossip_refines [OF calm.swim_env_axioms]) (simp_all add: tolerable_def seen_info_def)
  then show ?thesis by (auto simp: spec_gossip_def spec_merge_def members_sample)
qed

text \<open>C7: Gossip converges: two servers in the same state that take in the same records, in different orders
  and with different repetitions, agree on the incarnation and the status of every node. The statuses of the records and
  of the view are named ones, and the server survives the records.\<close>

theorem gossip_converges:
  assumes "swim_env E" "wf_swim E (w_swim w)" "set gs = set hs"
    and "\<forall>ni \<in> set gs. wf_info ni \<and> tolerable (s_uuid (w_swim w)) ni \<and> claimed ni"
    and "\<forall>ni \<in> ran (members (w_swim w)). claimed ni"
    and "\<forall>k. x_alloc E k" "view_size (w_swim w) + length gs < 2 ^ 30" "view_size (w_swim w) + length hs < 2 ^ 30"
  shows "\<exists>w1 w2. swim_process_gossip E gs (length gs) w = Inr w1 \<and> swim_process_gossip E hs (length hs) w = Inr w2 \<and>
           (\<forall>u. map_option claim_rank (members (w_swim w1) u) = map_option claim_rank (members (w_swim w2) u))"
proof -
  let ?u = "s_uuid (w_swim w)" and ?m = "members (w_swim w)"
  have "\<exists>w'. swim_process_gossip E gs (length gs) w = Inr w' \<and> members (w_swim w') = fold (spec_merge ?u) gs ?m"
    "\<exists>w'. swim_process_gossip E hs (length hs) w = Inr w' \<and> members (w_swim w') = fold (spec_merge ?u) hs ?m"
    using gossip_view [OF assms(1,2), of "length gs" gs] gossip_view [OF assms(1,2), of "length hs" hs] assms(3-8) by auto
  moreover have "map_option claim_rank (fold (spec_merge ?u) gs ?m u) = map_option claim_rank (fold (spec_merge ?u) hs ?m u)" for u
    unfolding fold_spec_merge using assms(3-5) by (intro swim_gossip.gossip_order) auto
  ultimately show ?thesis by auto
qed

theorem gossip_converges_witness:
  "\<exists>w1 w2. swim_process_gossip calm_env [sample_info 2 1 SWIM_STATUS_SUSPECT 980, sample_info 2 1 SWIM_STATUS_ALIVE 995] 2 sample_world = Inr w1 \<and>
     swim_process_gossip calm_env [sample_info 2 1 SWIM_STATUS_ALIVE 995, sample_info 2 1 SWIM_STATUS_SUSPECT 980,
        sample_info 2 1 SWIM_STATUS_ALIVE 995] 3 sample_world = Inr w2 \<and>
     map_option claim_rank (members (w_swim w1) 2) = map_option claim_rank (members (w_swim w2) 2)"
proof -
  let ?a = "sample_info 2 1 SWIM_STATUS_SUSPECT 980" and ?b = "sample_info 2 1 SWIM_STATUS_ALIVE 995"
  have "\<exists>w1 w2. swim_process_gossip calm_env [?a, ?b] (length [?a, ?b]) sample_world = Inr w1 \<and>
      swim_process_gossip calm_env [?b, ?a, ?b] (length [?b, ?a, ?b]) sample_world = Inr w2 \<and>
      (\<forall>u. map_option claim_rank (members (w_swim w1) u) = map_option claim_rank (members (w_swim w2) u))"
    by (rule gossip_converges [OF calm.swim_env_axioms])
      (auto simp: tolerable_def seen_info_def claimed_def members_sample ran_def zero_info_def split: if_splits)
  then show ?thesis by (auto simp: numeral_eq_Suc)
qed

text \<open>C16: Gossip never takes back what is known: whatever records arrive, a node of the view stays in the
  view, and its claim (incarnation first, then status) does not decrease.\<close>

theorem gossip_monotone:
  assumes "swim_env E" "wf_swim E (w_swim w)" "cnt \<le> length gs"
    and "\<forall>ni \<in> set (take cnt gs). wf_info ni \<and> claimed ni" "\<forall>ni \<in> ran (members (w_swim w)). claimed ni"
    and "\<forall>k. x_alloc E k" "swim_process_gossip E gs cnt w = Inr w'" "members (w_swim w) u = Some ni"
  shows "\<exists>ni'. members (w_swim w') u = Some ni' \<and> claim_rank ni \<le> claim_rank ni'"
proof -
  have wf: "\<forall>ni \<in> set (take cnt gs). wf_info ni" using assms(4) by simp
  have "(members (w_swim w'), s_incarnation (w_swim w')) =
      fold (spec_gossip (s_uuid (w_swim w))) (take cnt gs) (members (w_swim w), s_incarnation (w_swim w))"
    using wp_InrD [OF swim_env.wp_swim_process_gossip [where g = True, OF assms(1-3) wf] assms(7)] assms(6) by simp
  then have "members (w_swim w') = fold (spec_merge (s_uuid (w_swim w))) (take cnt gs) (members (w_swim w))"
    using fst_fold_spec_gossip by (metis fst_conv)
  then show ?thesis
    unfolding fold_spec_merge using assms(4,5) swim_gossip.gossip_grows [OF _ assms(5,8)] by (simp del: set_take_subset)
qed

theorem gossip_monotone_witness:
  "\<exists>w' ni'. swim_process_gossip calm_env [sample_info 5 0 SWIM_STATUS_ALIVE 995] 1 sample_world = Inr w' \<and>
     members (w_swim w') 5 = Some ni' \<and> (0, SWIM_STATUS_SUSPECT) \<le> claim_rank ni'"
proof -
  let ?gs = "[sample_info 5 0 SWIM_STATUS_ALIVE 995]"
  obtain w' where run: "swim_process_gossip calm_env ?gs 1 sample_world = Inr w'"
    using gossip_view [OF calm.swim_env_axioms, of sample_world 1 ?gs] by (auto simp: tolerable_def seen_info_def)
  have "\<exists>ni'. members (w_swim w') 5 = Some ni' \<and> claim_rank (info (sample_node 5 SWIM_STATUS_SUSPECT 900)) \<le> claim_rank ni'"
    by (rule gossip_monotone [OF calm.swim_env_axioms _ _ _ _ _ run])
      (auto simp: claimed_def members_sample ran_def zero_info_def split: if_splits)
  then show ?thesis using run by (auto simp: claim_rank_def zero_info_def)
qed

text \<open>C17: Exactly which gossip a server survives: the processing returns if and only if every record has a
  time and a status, and none declares the server itself dead; the server's incarnation number then grows
  by the number of records that suspect it, and nothing is sent.\<close>

theorem gossip_survives:
  assumes "swim_env E" "wf_swim E (w_swim w)" "cnt \<le> length gs" "\<forall>ni \<in> set (take cnt gs). wf_info ni"
    and "\<forall>k. x_alloc E k" "view_size (w_swim w) + cnt < 2 ^ 30"
  shows "case swim_process_gossip E gs cnt w of
      Inl e \<Rightarrow> \<exists>ni \<in> set (take cnt gs). if seen_info ni then e = ExitFailure \<and> n_uuid ni = s_uuid (w_swim w) \<and> n_status ni = SWIM_STATUS_DEAD
                                     else e = AssertFailed
    | Inr w' \<Rightarrow> (\<forall>ni \<in> set (take cnt gs). tolerable (s_uuid (w_swim w)) ni) \<and> w_sent w' = w_sent w \<and>
        s_incarnation (w_swim w') = s_incarnation (w_swim w) +
          of_nat (length (filter (\<lambda>ni. n_uuid ni = s_uuid (w_swim w) \<and> n_status ni = SWIM_STATUS_SUSPECT) (take cnt gs)))"
proof (cases "swim_process_gossip E gs cnt w")
  case (Inl e)
  then obtain ni where ni: "ni \<in> set (take cnt gs)" "gossip_error (s_uuid (w_swim w)) ni (view_size (w_swim w) + cnt) e"
    using swim_env.wp_swim_process_gossip [where g = True, OF assms(1-4)] by auto
  then show ?thesis using Inl assms(6) by (auto simp: gossip_error_def intro!: bexI [of _ ni])
next
  case (Inr w')
  have w': "\<forall>ni \<in> set (take cnt gs). tolerable (s_uuid (w_swim w)) ni" "w_sent w' = w_sent w"
     "(members (w_swim w'), s_incarnation (w_swim w')) =
      fold (spec_gossip (s_uuid (w_swim w))) (take cnt gs) (members (w_swim w), s_incarnation (w_swim w))"
    using wp_InrD [OF swim_env.wp_swim_process_gossip [where g = True, OF assms(1-4)] Inr] assms(5) by simp_all
  show ?thesis
    using w'(1,2) arg_cong [OF w'(3), of snd] by (simp only: Inr sum.case snd_fold_spec_gossip snd_conv simp_thms)
qed

theorem gossip_survives_witness:
  "case swim_process_gossip calm_env [sample_info 7 0 SWIM_STATUS_DEAD 990] 1 sample_world of
     Inl e \<Rightarrow> e = ExitFailure | Inr w' \<Rightarrow> False"
  using gossip_survives [OF calm.swim_env_axioms, of sample_world 1 "[sample_info 7 0 SWIM_STATUS_DEAD 990]"]
  by (auto simp: tolerable_def seen_info_def split: sum.splits)

section \<open>Properties: handlers\<close>

text \<open>C22: A ping is answered: exactly one acknowledgement of the server's own identifier goes to the sender,
  carrying gossip from the view as it was, before the gossip of the ping is taken in.\<close>

theorem ping_answered:
  assumes "wf_swim E (w_swim w)" "\<forall>k. x_alloc E k" "addrlen \<le> SIZEOF_STORAGE"
  shows "\<exists>ack w1. swim_process_ping E ev addr addrlen w = swim_process_gossip E (gossip ev) (gossip_count ev) w1 \<and>
           w_swim w1 = w_swim w \<and> message_of (w_swim w) EVENT_TYPE_ACK (s_uuid (w_swim w)) ack \<and>
           w_sent w1 = w_sent w @ [\<lparr>d_bytes = event_bytes (x_little_endian E) ack, d_addr = take addrlen addr\<rparr>]"
  by (rule send_ack_ok [OF assms(1,2), of "s_uuid (w_swim w)" addr addrlen])
    (use assms(3) in \<open>auto simp: swim_process_ping_def sends_def\<close>)

theorem ping_answered_witness:
  "\<exists>ack w1. swim_process_ping calm_env (sample_event EVENT_TYPE_PING) zero_storage 16 sample_world
       = swim_process_gossip calm_env (gossip (sample_event EVENT_TYPE_PING)) 1 w1 \<and>
     w_sent w1 = [\<lparr>d_bytes = event_bytes True ack, d_addr = take 16 zero_storage\<rparr>] \<and> ev_uuid ack = 7"
proof -
  have "\<exists>ack w1. swim_process_ping calm_env (sample_event EVENT_TYPE_PING) zero_storage 16 sample_world
       = swim_process_gossip calm_env (gossip (sample_event EVENT_TYPE_PING)) (gossip_count (sample_event EVENT_TYPE_PING)) w1 \<and>
      w_swim w1 = w_swim sample_world \<and> message_of (w_swim sample_world) EVENT_TYPE_ACK (s_uuid (w_swim sample_world)) ack \<and>
      w_sent w1 = w_sent sample_world @ [\<lparr>d_bytes = event_bytes (x_little_endian calm_env) ack, d_addr = take 16 zero_storage\<rparr>]"
    by (rule ping_answered) simp_all
  then show ?thesis by (auto simp: message_of_def)
qed

text \<open>C21: A request to ping a node of the view sets the status of that node to suspect and changes no other record,
  stores the address of the sender of the request as its witness and touches no other node, and sends one ping, to the
  address of the node; a request for any other node does nothing.\<close>

theorem ping_req_relayed:
  assumes "swim_env E" "wf_swim E (w_swim w)" "addrlen \<le> SIZEOF_STORAGE" "addrlen \<le> length addr" "\<forall>k. x_alloc E k"
  shows "case members (w_swim w) (ev_uuid ev) of
      None \<Rightarrow> swim_process_ping_req E ev addr addrlen w = Inr w
    | Some ni \<Rightarrow> \<exists>w' ping i. swim_process_ping_req E ev addr addrlen w = Inr w' \<and> wf_swim E (w_swim w') \<and>
        members (w_swim w') = (members (w_swim w))(ev_uuid ev \<mapsto> ni\<lparr>n_status := SWIM_STATUS_SUSPECT\<rparr>) \<and>
        i < view_size (w_swim w') \<and> node_uuid (view (w_swim w') ! i) = ev_uuid ev \<and>
        w_addrlen (view (w_swim w') ! i) = addrlen \<and> take addrlen (w_addr (view (w_swim w') ! i)) = take addrlen addr \<and>
        (\<forall>j. j \<noteq> i \<longrightarrow> view (w_swim w') ! j = view (w_swim w) ! j) \<and>
        message_of (w_swim w') EVENT_TYPE_PING 0 ping \<and>
        w_sent w' = w_sent w @ [\<lparr>d_bytes = event_bytes (x_little_endian E) ping, d_addr = take (n_addrlen ni) (n_addr ni)\<rparr>]"
proof (cases "swim_state_get_node E (w_swim w) (ev_uuid ev)")
  case None
  then show ?thesis
    using swim_env.members_eq [OF assms(1,2), of "ev_uuid ev"] by (simp add: swim_process_ping_req_def swim_state_suspect_def Let_def)
next
  case (Some i)
  let ?ni = "info (view (w_swim w) ! i)"
  have mem: "members (w_swim w) (ev_uuid ev) = Some ?ni" using swim_env.members_eq [OF assms(1,2), of "ev_uuid ev"] Some by simp
  have i: "i < view_size (w_swim w)" "node_uuid (view (w_swim w) ! i) = ev_uuid ev"
    using Some swim_env.get_node_Some [OF assms(1,2)] by auto
  obtain s' where s': "swim_state_suspect E (ev_uuid ev) addr addrlen (w_swim w) = Inr (Some i, s')" "wf_swim E s'"
    "view_size s' = view_size (w_swim w)"
    "members s' = (members (w_swim w))(ev_uuid ev \<mapsto> ?ni\<lparr>n_status := SWIM_STATUS_SUSPECT\<rparr>)"
    "w_addrlen (view s' ! i) = addrlen" "take addrlen (w_addr (view s' ! i)) = take addrlen addr"
    using swim_env.swim_state_suspect_spec [OF assms(1-4), of "ev_uuid ev"] Some mem by auto
  have at: "info (view s' ! i) = ?ni\<lparr>n_status := SWIM_STATUS_SUSPECT\<rparr>" "\<forall>j. j \<noteq> i \<longrightarrow> view s' ! j = view (w_swim w) ! j"
    using s'(1) Some i(1) wf_swimD(3) [OF assms(2)] by (auto simp: swim_state_suspect_def upd_node_def Let_def)
  have nd: "wf_node (view s' ! i)" using wf_swim_nth [OF s'(2), of i] i(1) s'(3) by simp
  let ?w = "w\<lparr>w_swim := s'\<rparr>"
  obtain r ping w' where snd: "swim_send_ping E (n_addr (info (view s' ! i))) (n_addrlen (info (view s' ! i))) ?w = Inr (r, w')"
    "message_of (w_swim ?w) EVENT_TYPE_PING 0 ping" "sends E ?w ping (n_addr (info (view s' ! i))) (n_addrlen (info (view s' ! i))) w'"
    by (rule send_ping_ok [of E ?w "n_addr (info (view s' ! i))" "n_addrlen (info (view s' ! i))"]) (use s'(2) assms(5) in simp_all)
  have w': "w_swim w' = s'" using snd(3) by (simp add: sends_def)
  have "swim_process_ping_req E ev addr addrlen w = Inr w'" using s'(1) snd(1) by (simp add: swim_process_ping_req_def)
  then show ?thesis
    unfolding mem option.case
    by (intro exI [of _ w'] exI [of _ ping] exI [of _ i])
      (use w' s' at i snd(2) sends_node [OF nd snd(3)] in simp)
qed

theorem ping_req_relayed_witness:
  "\<exists>w' ping i. swim_process_ping_req calm_env ((sample_event EVENT_TYPE_PING_REQ)\<lparr>ev_uuid := 2\<rparr>) [1, 2, 3] 3 sample_world = Inr w' \<and>
     map_option n_status (members (w_swim w') 2) = Some SWIM_STATUS_SUSPECT \<and>
     node_uuid (view (w_swim w') ! i) = 2 \<and> take (w_addrlen (view (w_swim w') ! i)) (w_addr (view (w_swim w') ! i)) = [1, 2, 3] \<and>
     w_sent w' = [\<lparr>d_bytes = event_bytes True ping, d_addr = []\<rparr>]"
proof -
  obtain w' ping i where
    "swim_process_ping_req calm_env ((sample_event EVENT_TYPE_PING_REQ)\<lparr>ev_uuid := 2\<rparr>) [1, 2, 3] 3 sample_world = Inr w'"
    "map_option n_status (members (w_swim w') 2) = Some SWIM_STATUS_SUSPECT"
    "node_uuid (view (w_swim w') ! i) = 2" "w_addrlen (view (w_swim w') ! i) = 3" "take 3 (w_addr (view (w_swim w') ! i)) = [1, 2, 3]"
    "w_sent w' = [\<lparr>d_bytes = event_bytes True ping, d_addr = []\<rparr>]"
    using ping_req_relayed [OF calm.swim_env_axioms, of sample_world 3 "[1, 2, 3]" "(sample_event EVENT_TYPE_PING_REQ)\<lparr>ev_uuid := 2\<rparr>"]
    by (auto simp: members_sample zero_info_def)
  then show ?thesis by (intro exI [of _ w'] exI [of _ ping] exI [of _ i]) simp
qed

text \<open>C18: An acknowledgement about a suspected node of the view refutes the suspicion: the node is alive again,
  its witness is told so by exactly one acknowledgement of the same node and then forgotten, and the gossip of the
  message is processed in that state.\<close>

theorem ack_refutes:
  assumes "swim_env E" "wf_swim E (w_swim w)" "\<forall>k. x_alloc E k"
    and "swim_state_get_node E (w_swim w) (ev_uuid ev) = Some i" "node_status (view (w_swim w) ! i) = SWIM_STATUS_SUSPECT"
    and "w_addrlen (view (w_swim w) ! i) \<le> SIZEOF_STORAGE"
  shows "\<exists>ack w1. swim_process_ack E ev addr addrlen w = swim_process_gossip E (gossip ev) (gossip_count ev) w1 \<and>
           wf_swim E (w_swim w1) \<and> \<not> swim_node_has_witness (view (w_swim w1) ! i) \<and>
           members (w_swim w1) = (members (w_swim w))(ev_uuid ev \<mapsto> (info (view (w_swim w) ! i))\<lparr>n_status := SWIM_STATUS_ALIVE\<rparr>) \<and>
           message_of (w_swim w) EVENT_TYPE_ACK (ev_uuid ev) ack \<and>
           w_sent w1 = w_sent w @ (if swim_node_has_witness (view (w_swim w) ! i)
             then [\<lparr>d_bytes = event_bytes (x_little_endian E) ack,
                    d_addr = take (w_addrlen (view (w_swim w) ! i)) (w_addr (view (w_swim w) ! i))\<rparr>] else [])"
proof -
  let ?nd = "view (w_swim w) ! i" and ?f = "\<lambda>nd. swim_node_reset_witness (set_status SWIM_STATUS_ALIVE nd)"
  have i: "i < view_size (w_swim w)" "node_uuid ?nd = ev_uuid ev" using assms(4) swim_env.get_node_Some [OF assms(1,2)] by auto
  have il: "i < length (view (w_swim w))" using i wf_swimD(3) [OF assms(2)] by simp
  have nd: "wf_node ?nd" "?nd \<in> set (nodes (w_swim w))" using wf_swim_nth [OF assms(2) i(1)] by simp_all
  have ne: "x_uuid_compare E (ev_uuid ev) (s_uuid (w_swim w)) \<noteq> 0"
    using nd(2) wf_swimD(5) [OF assms(2)] i(2) key_compare.cmp_eq [OF swim_env.compare [OF assms(1)]] by (metis imageI)
  obtain r ack w' where snd: "swim_send_ack E (ev_uuid ev) (w_addr ?nd) (w_addrlen ?nd) w = Inr (r, w')"
    "message_of (w_swim w) EVENT_TYPE_ACK (ev_uuid ev) ack" "sends E w ack (w_addr ?nd) (w_addrlen ?nd) w'"
    using send_ack_ok [OF assms(2,3)] by blast
  have refuted: "wf_swim E (upd_node i ?f (w_swim w))"
    "members (upd_node i ?f (w_swim w)) = (members (w_swim w))(ev_uuid ev \<mapsto> (info ?nd)\<lparr>n_status := SWIM_STATUS_ALIVE\<rparr>)"
    "\<not> swim_node_has_witness (view (upd_node i ?f (w_swim w)) ! i)"
    using wf_upd_node [OF assms(2) i(1), of ?f] swim_env.members_upd_node [OF assms(1,2) i(1), of ?f] i(2) nd(1) il
    by (simp_all add: set_status_def wf_info_def wf_node_def swim_node_reset_witness_def swim_node_has_witness_def)
  let ?w1 = "(if swim_node_has_witness ?nd then w' else w)\<lparr>w_swim := upd_node i ?f (w_swim w)\<rparr>"
  have "upd_node i ?f (upd_node i swim_node_reset_witness (w_swim w)) = upd_node i ?f (w_swim w)"
    using il by (simp add: upd_node_def set_status_def swim_node_reset_witness_def)
  then have "swim_process_ack E ev addr addrlen w = swim_process_gossip E (gossip ev) (gossip_count ev) ?w1"
    using assms(4,5) ne snd(1,3)
    by (auto simp: swim_process_ack_def ack_lookup_def ack_refute_def swim_cluster_refuted_dead_def sends_def Let_def)
  with refuted snd(2,3) assms(6) show ?thesis
    by (intro exI [of _ ack] exI [of _ ?w1]) (simp add: sends_def)
qed

theorem ack_refutes_witness:
  "\<exists>w1. swim_process_ack calm_env (sample_event EVENT_TYPE_ACK) zero_storage 16 sample_world
       = swim_process_gossip calm_env (gossip (sample_event EVENT_TYPE_ACK)) 1 w1 \<and>
     map_option n_status (members (w_swim w1) 5) = Some SWIM_STATUS_ALIVE \<and> w_sent w1 = []"
  using ack_refutes [OF calm.swim_env_axioms, of sample_world "sample_event EVENT_TYPE_ACK" 1 zero_storage 16]
  by (auto simp: zero_info_def swim_node_has_witness_def)

text \<open>C39: An acknowledgement about a node that is new to the server, and whose identifier is not the greatest of
  the view, leaves a trap: the status that should mark the new node as alive goes to another node, the new record
  stays without a status, and the next message from the new node, whatever it is, aborts the server. The acknowledgement
  may carry gossip that the server survives, as long as no record of it is about the new node. That is so for the answer
  to a join event, because a server is not in its own view.\<close>

theorem ack_unknown_aborts:
  assumes "swim_env E" "wf_swim E (w_swim w)" "addrlen \<le> SIZEOF_STORAGE" "addrlen \<le> length addr"
    and "\<forall>k. x_alloc E k" "view_size (w_swim w) + gossip_count ev + 1 < 2 ^ 30"
    and "\<forall>ni \<in> set (take (gossip_count ev) (gossip ev)). tolerable (s_uuid (w_swim w)) ni \<and> n_uuid ni \<noteq> ev_uuid ev"
    and "ev_uuid ev \<noteq> s_uuid (w_swim w)" "members (w_swim w) (ev_uuid ev) = None" "wf_event ev"
    and "v \<in> dom (members (w_swim w))" "0 < x_uuid_compare E v (ev_uuid ev)"
  shows "\<exists>w' ni. swim_process_ack E ev addr addrlen w = Inr w' \<and> wf_swim E (w_swim w') \<and>
           members (w_swim w') (ev_uuid ev) = Some ni \<and> n_status ni = SWIM_STATUS_UNKNOWN \<and>
           (\<forall>ev' addr' addrlen'. known_type (h_type (hdr ev')) \<longrightarrow> h_uuid (hdr ev') = ev_uuid ev \<longrightarrow>
              swim_process_event E ev' addr' addrlen' w' = Inl AssertFailed)"
proof -
  have none: "swim_state_get_node E (w_swim w) (ev_uuid ev) = None"
    using swim_env.members_eq [OF assms(1,2), of "ev_uuid ev"] assms(9) by simp
  have ne: "x_uuid_compare E (ev_uuid ev) (s_uuid (w_swim w)) \<noteq> 0"
    using assms(8) key_compare.cmp_eq [OF swim_env.compare [OF assms(1)]] by simp
  obtain ni0 where ni0: "swim_node_init (ev_uuid ev) addr addrlen = Inr ni0" "wf_info ni0" "n_uuid ni0 = ev_uuid ev" "n_status ni0 = SWIM_STATUS_UNKNOWN"
    using wp_exists [OF wp_swim_node_init [OF assms(3,4), of "ev_uuid ev" "\<lambda>ni. wf_info ni \<and> n_uuid ni = ev_uuid ev \<and> n_status ni = SWIM_STATUS_UNKNOWN" "\<lambda>_. False"]]
    by auto
  define ni where "ni = ni0\<lparr>n_last_seen := h_time (hdr ev)\<rparr>"
  have ni: "wf_info ni" "n_uuid ni = ev_uuid ev" "n_status ni = SWIM_STATUS_UNKNOWN"
    using ni0 by (simp_all add: ni_def wf_info_def)
  have new: "n_uuid ni \<noteq> s_uuid (w_swim w)" "members (w_swim w) (n_uuid ni) = None" using ni assms by simp_all
  obtain w1 where w1: "swim_state_add E ni w = Inr (Some (view_size (w_swim w)), w1)" "wf_swim E (w_swim w1)"
    "view_size (w_swim w1) = Suc (view_size (w_swim w))" "members (w_swim w1) (ev_uuid ev) = Some ni"
    "s_uuid (w_swim w1) = s_uuid (w_swim w)"
    using wp_exists [OF swim_env.swim_state_add_spec [OF assms(1,2) ni(1) new]] assms(5,6) ni(2)
    by (auto split: option.splits)
  have "node_uuid (view (w_swim w1) ! view_size (w_swim w)) \<noteq> ev_uuid ev"
    using swim_env.add_pointer [OF assms(1,2) ni(1) new w1(1)] ni(2) assms(11,12) by force
  then obtain w2 where w2: "ack_refute E ev (view_size (w_swim w)) w1 = Inr w2" "wf_swim E (w_swim w2)"
    "members (w_swim w2) (ev_uuid ev) = Some ni" "s_uuid (w_swim w2) = s_uuid (w_swim w)" "view_size (w_swim w2) = Suc (view_size (w_swim w))"
    using ack_refute_other [OF assms(1) w1(2) assms(5), of "view_size (w_swim w)" "ev_uuid ev"] w1(3-5) by auto
  obtain w3 where w3: "swim_process_gossip E (gossip ev) (gossip_count ev) w2 = Inr w3" "wf_swim E (w_swim w3)"
    "members (w_swim w3) = fold (spec_merge (s_uuid (w_swim w2))) (take (gossip_count ev) (gossip ev)) (members (w_swim w2))"
    using gossip_view [OF assms(1) w2(2), of "gossip_count ev" "gossip ev"] assms(5-7,10) w2(4,5) by (auto simp: wf_event_def)
  have "members (w_swim w3) (ev_uuid ev) = Some ni"
    unfolding w3(3) using fold_spec_merge_other [of "take (gossip_count ev) (gossip ev)" "ev_uuid ev"] assms(7) w2(3) by simp
  moreover have "swim_process_ack E ev addr addrlen w = Inr w3"
    using ne none ni0(1) w1(1) w2(1) w3(1) by (simp add: swim_process_ack_def ack_lookup_def ni_def)
  moreover have "\<not> seen_info ni" using ni(3) by (simp add: seen_info_def)
  ultimately show ?thesis
    using w3(2) ni(3) unseen_sender_aborts [OF assms(1) w3(2)] by auto
qed

theorem ack_unknown_aborts_witness:
  "\<exists>w'. swim_process_ack calm_env ((sample_event EVENT_TYPE_ACK)\<lparr>ev_uuid := 4\<rparr>) zero_storage 16 sample_world = Inr w' \<and>
     swim_process_event calm_env ((sample_event EVENT_TYPE_PING)\<lparr>hdr := \<lparr>h_type = EVENT_TYPE_PING, h_uuid = 4, h_time = 1001, h_incarnation = 0\<rparr>\<rparr>)
       zero_storage 16 w' = Inl AssertFailed"
proof -
  let ?ev = "(sample_event EVENT_TYPE_ACK)\<lparr>ev_uuid := 4\<rparr>"
  let ?ev' = "(sample_event EVENT_TYPE_PING)\<lparr>hdr := \<lparr>h_type = EVENT_TYPE_PING, h_uuid = 4, h_time = 1001, h_incarnation = 0\<rparr>\<rparr>"
  have "\<exists>w' ni. swim_process_ack calm_env ?ev zero_storage 16 sample_world = Inr w' \<and> wf_swim calm_env (w_swim w') \<and>
           members (w_swim w') (ev_uuid ?ev) = Some ni \<and> n_status ni = SWIM_STATUS_UNKNOWN \<and>
           (\<forall>ev' addr' addrlen'. known_type (h_type (hdr ev')) \<longrightarrow> h_uuid (hdr ev') = ev_uuid ?ev \<longrightarrow>
              swim_process_event calm_env ev' addr' addrlen' w' = Inl AssertFailed)"
    by (rule ack_unknown_aborts [OF calm.swim_env_axioms, where v = 9]) (simp_all add: members_sample uuid_number_compare_def tolerable_def seen_info_def)
  then obtain w' where w': "swim_process_ack calm_env ?ev zero_storage 16 sample_world = Inr w'"
    "\<forall>ev' addr' addrlen'. known_type (h_type (hdr ev')) \<longrightarrow> h_uuid (hdr ev') = ev_uuid ?ev \<longrightarrow>
              swim_process_event calm_env ev' addr' addrlen' w' = Inl AssertFailed" by blast
  from w'(2) [rule_format, of ?ev'] have "swim_process_event calm_env ?ev' zero_storage 16 w' = Inl AssertFailed" by simp
  with w'(1) show ?thesis by blast
qed

text \<open>C19: A join event of a new node is admitted: the node enters the view, alive, with the time of the event and
  with the address the event gives or, if it gives none, the address it came from; the event, with that address, is
  forwarded to every node of the new view, once and in the order of the view, and the sender gets one acknowledgement.\<close>

theorem join_admits:
  assumes "swim_env E" "wf_swim E (w_swim w)"
    and "wf_event ev" "gossip_count ev \<le> 11" "h_type (hdr ev) = EVENT_TYPE_JOIN" "0 < h_time (hdr ev)"
    and "addrlen \<le> SIZEOF_STORAGE" "addrlen \<le> length addr" "\<forall>k. x_alloc E k" "view_size (w_swim w) < 2 ^ 30"
    and "ev_uuid ev \<noteq> s_uuid (w_swim w)" "members (w_swim w) (ev_uuid ev) = None"
  shows "\<exists>e ni ack w'. swim_process_join E ev addr addrlen w = Inr w' \<and> joined_event addr addrlen ev e \<and> wf_swim E (w_swim w') \<and>
           members (w_swim w') = (members (w_swim w))(ev_uuid ev \<mapsto> ni) \<and>
           n_status ni = SWIM_STATUS_ALIVE \<and> n_last_seen ni = h_time (hdr ev) \<and>
           take (n_addrlen ni) (n_addr ni) = take (join_addrlen e) (join_addr e) \<and>
           message_of (w_swim w') EVENT_TYPE_ACK (s_uuid (w_swim w)) ack \<and>
           w_sent w' = w_sent w @ map (node_datagram E (w_swim w') e) [0..<view_size (w_swim w')] @
             [\<lparr>d_bytes = event_bytes (x_little_endian E) ack, d_addr = take addrlen addr\<rparr>]"
  using join_new [OF assms] by blast

theorem join_admits_witness:
  "\<exists>ni w'. swim_process_join calm_env ((sample_event EVENT_TYPE_JOIN)\<lparr>ev_uuid := 4\<rparr>) [1, 2, 3] 3 sample_world = Inr w' \<and>
     members (w_swim w') 4 = Some ni \<and> n_status ni = SWIM_STATUS_ALIVE \<and> take (n_addrlen ni) (n_addr ni) = [1, 2, 3]"
proof -
  let ?ev = "(sample_event EVENT_TYPE_JOIN)\<lparr>ev_uuid := 4\<rparr>" and ?w = sample_world
  have "\<exists>e ni ack w'. swim_process_join calm_env ?ev [1, 2, 3] 3 ?w = Inr w' \<and> joined_event [1, 2, 3] 3 ?ev e \<and>
           wf_swim calm_env (w_swim w') \<and>
           members (w_swim w') = (members (w_swim ?w))(ev_uuid ?ev \<mapsto> ni) \<and>
           n_status ni = SWIM_STATUS_ALIVE \<and> n_last_seen ni = h_time (hdr ?ev) \<and>
           take (n_addrlen ni) (n_addr ni) = take (join_addrlen e) (join_addr e) \<and>
           message_of (w_swim w') EVENT_TYPE_ACK (s_uuid (w_swim ?w)) ack \<and>
           w_sent w' = w_sent ?w @ map (node_datagram calm_env (w_swim w') e) [0..<view_size (w_swim w')] @
             [\<lparr>d_bytes = event_bytes (x_little_endian calm_env) ack, d_addr = take 3 [1, 2, 3]\<rparr>]"
    by (rule join_admits [OF calm.swim_env_axioms]) (simp_all add: members_sample)
  then show ?thesis by (auto simp: joined_event_def)
qed

text \<open>C20: The flood of a join event ends: once a server has handled a join event and returned, every further join
  event for the same node, from whomever, changes nothing and is neither forwarded nor acknowledged.\<close>

theorem join_forwarded_once:
  assumes "swim_env E" "wf_swim E (w_swim w)"
    and "wf_event ev" "gossip_count ev \<le> 11" "h_type (hdr ev) = EVENT_TYPE_JOIN" "0 < h_time (hdr ev)"
    and "addrlen \<le> SIZEOF_STORAGE" "addrlen \<le> length addr" "\<forall>k. x_alloc E k" "view_size (w_swim w) < 2 ^ 30"
    and "ev_uuid ev' = ev_uuid ev"
  shows "\<exists>w'. swim_process_join E ev addr addrlen w = Inr w' \<and> swim_process_join E ev' addr' addrlen' w' = Inr w'"
proof (cases "ev_uuid ev = s_uuid (w_swim w) \<or> members (w_swim w) (ev_uuid ev) \<noteq> None")
  case True
  then show ?thesis using join_known [OF assms(1,2)] assms(11) by simp
next
  case False
  then obtain w' ni where w': "swim_process_join E ev addr addrlen w = Inr w'" "wf_swim E (w_swim w')"
    "members (w_swim w') = (members (w_swim w))(ev_uuid ev \<mapsto> ni)"
    using join_new [OF assms(1-10)] by auto
  then show ?thesis using join_known [OF assms(1) w'(2), of ev'] assms(11) by simp
qed

theorem join_forwarded_once_witness:
  "\<exists>w'. swim_process_join calm_env ((sample_event EVENT_TYPE_JOIN)\<lparr>ev_uuid := 4\<rparr>) [1, 2, 3] 3 sample_world = Inr w' \<and>
     swim_process_join calm_env ((sample_event EVENT_TYPE_JOIN)\<lparr>ev_uuid := 4\<rparr>) [4] 1 w' = Inr w'"
  by (rule join_forwarded_once [OF calm.swim_env_axioms]) simp_all

text \<open>C23: A leave event marks the node it names as dead and is acknowledged once; a leave event that names no node
  of the view, such as every leave event that \<open>swim_cluster_leave\<close> sends, whose identifier is zero, changes
  nothing but is acknowledged all the same.\<close>

theorem leave_marks_dead:
  assumes "swim_env E" "wf_swim E (w_swim w)" "\<forall>k. x_alloc E k" "addrlen \<le> SIZEOF_STORAGE"
  shows "\<exists>ack w'. swim_process_leave E ev addr addrlen w = Inr w' \<and> wf_swim E (w_swim w') \<and>
           members (w_swim w') = (case members (w_swim w) (ev_uuid ev) of None \<Rightarrow> members (w_swim w)
             | Some ni \<Rightarrow> (members (w_swim w))(ev_uuid ev \<mapsto> ni\<lparr>n_status := SWIM_STATUS_DEAD\<rparr>)) \<and>
           message_of (w_swim w') EVENT_TYPE_ACK (s_uuid (w_swim w)) ack \<and>
           w_sent w' = w_sent w @ [\<lparr>d_bytes = event_bytes (x_little_endian E) ack, d_addr = take addrlen addr\<rparr>]"
proof -
  let ?w = "w\<lparr>w_swim := snd (swim_state_del E (ev_uuid ev) (w_swim w))\<rparr>"
  have d: "wf_swim E (w_swim ?w)" "s_uuid (w_swim ?w) = s_uuid (w_swim w)"
    "members (w_swim ?w) = (case members (w_swim w) (ev_uuid ev) of None \<Rightarrow> members (w_swim w)
             | Some ni \<Rightarrow> (members (w_swim w))(ev_uuid ev \<mapsto> ni\<lparr>n_status := SWIM_STATUS_DEAD\<rparr>))"
    using swim_env.swim_state_del_spec [OF assms(1,2), of "ev_uuid ev"] by simp_all
  show ?thesis
    by (rule send_ack_ok [OF d(1) assms(3), of "s_uuid (w_swim ?w)" addr addrlen])
      (use d assms(4) in \<open>auto simp: swim_process_leave_def sends_def\<close>)
qed

theorem leave_marks_dead_witness:
  "\<exists>w'. swim_process_leave calm_env ((sample_event EVENT_TYPE_LEAVE)\<lparr>ev_uuid := 0\<rparr>) zero_storage 16 sample_world = Inr w' \<and>
     members (w_swim w') = members sample_swim"
  using leave_marks_dead [OF calm.swim_env_axioms, of sample_world 16 "(sample_event EVENT_TYPE_LEAVE)\<lparr>ev_uuid := 0\<rparr>" zero_storage]
  by (auto simp: members_sample)

end
