(* ===== verification/Swim_Detector.thy ===== *)
theory Swim_Detector
  imports Swim_Handlers
begin

text \<open>
  The failure detector: what the heartbeat of \<open>swim/cluster.c\<close> makes of every node of the view, what it
  sends, and that a silent node is declared dead while a node that is heard stays alive. Also the
  messages by which a server leaves.
\<close>

section \<open>Aging the view\<close>

text \<open>What a heartbeat at the time \<open>now\<close> makes of a record.\<close>

definition age_info :: "time_t \<Rightarrow> NodeInfo \<Rightarrow> NodeInfo" where
  "age_info now ni =
     (case n_status ni of
        SWIM_STATUS_ALIVE \<Rightarrow> if n_last_seen ni \<le> now - 60 then ni\<lparr>n_status := SWIM_STATUS_SUSPECT\<rparr> else ni
      | SWIM_STATUS_SUSPECT \<Rightarrow> if n_last_seen ni \<le> now - 120 then ni\<lparr>n_status := SWIM_STATUS_DEAD\<rparr> else ni
      | _ \<Rightarrow> ni)"

lemma info_age_node: "info (age_node now nd) = age_info now (info nd)"
  by (cases "n_status (info nd)") (simp_all add: age_node_def age_info_def set_status_def)

lemma members_age_view:
  assumes "view_size s \<le> length (view s)"
  shows "members (age_view now s) = map_option (age_info now) \<circ> members s"
proof -
  have "nodes (age_view now s) = map (age_node now) (nodes s)"
    using assms by (simp add: age_view_def)
  then have "map (\<lambda>nd. (node_uuid nd, info nd)) (nodes (age_view now s))
      = map (\<lambda>(u, ni). (u, age_info now ni)) (map (\<lambda>nd. (node_uuid nd, info nd)) (nodes s))"
    using age_node_simps(1) by (simp add: info_age_node)
  then show ?thesis unfolding members_def by (simp only: map_of_map)
qed

lemma members_upd_other [simp]:
  "members (s\<lparr>probe := p\<rparr>) = members s" "members (s\<lparr>last_heartbeat := t\<rparr>) = members s"
  by (simp_all add: members_def)

lemma heartbeat_result:
  assumes "wf_swim E (w_swim w)" "\<forall>k. x_alloc E k"
  defines "now \<equiv> x_time E (w_time w)"
  shows "\<exists>w'. swim_cluster_heartbeat E w = Inr w' \<and> wf_swim E (w_swim w') \<and> s_uuid (w_swim w') = s_uuid (w_swim w) \<and>
     view_size (w_swim w') = view_size (w_swim w) \<and>
     (if heartbeat_due now (w_swim w) then
        members (w_swim w') = map_option (age_info now) \<circ> members (w_swim w) \<and> last_heartbeat (w_swim w') = now \<and>
        (\<exists>pings reqs. w_sent w' = w_sent w @ pings @ reqs \<and> heartbeat_ping E (w_swim w) pings \<and>
           only_ping_reqs E (s_uuid (w_swim w)) (view_size (w_swim w)) reqs)
      else w_swim w' = w_swim w \<and> w_sent w' = w_sent w)"
proof -
  have "null_allowed E (\<lambda>_. False)" using assms(2) by (simp add: null_allowed_def)
  from wp_exists [OF wp_swim_cluster_heartbeat [OF assms(1) this]]
  obtain w' where w': "swim_cluster_heartbeat E w = Inr w'" "wf_swim E (w_swim w')"
    "if heartbeat_due now (w_swim w) then
        \<exists>p pings reqs. w_swim w' = age_view now ((w_swim w)\<lparr>probe := p, last_heartbeat := now\<rparr>) \<and>
          w_sent w' = w_sent w @ pings @ reqs \<and> heartbeat_ping E (w_swim w) pings \<and>
          only_ping_reqs E (s_uuid (w_swim w)) (view_size (w_swim w)) reqs
      else w_swim w' = w_swim w \<and> w_sent w' = w_sent w"
    unfolding now_def by blast
  show ?thesis
  proof (cases "heartbeat_due now (w_swim w)")
    case False
    then show ?thesis using w' by simp
  next
    case True
    then obtain p pings reqs where d: "w_swim w' = age_view now ((w_swim w)\<lparr>probe := p, last_heartbeat := now\<rparr>)"
      "w_sent w' = w_sent w @ pings @ reqs" "heartbeat_ping E (w_swim w) pings"
      "only_ping_reqs E (s_uuid (w_swim w)) (view_size (w_swim w)) reqs" using w'(3) by auto
    have "members (w_swim w') = map_option (age_info now) \<circ> members (w_swim w)"
      using wf_swimD(3) [OF assms(1)] by (simp add: d(1) members_age_view)
    then show ?thesis using w' d True by (auto simp: age_view_def)
  qed
qed

section \<open>The clock\<close>

text \<open>Sending never turns the clock back, and every heartbeat reads it: later heartbeats have later readings.\<close>

lemma wp_any [simp]: "wp (\<lambda>_. True) r (\<lambda>_. True)"
  by (cases r) simp_all

lemma clock_shuffle_loop: "w_time (snd (shuffle_loop E n ord w)) = w_time w"
  by (induction E n ord w rule: shuffle_loop.induct) (simp_all add: c_rand_def Let_def)

lemma clock_probe_next: "wp (\<lambda>_. True) (swim_probe_next E w) (\<lambda>r. w_time (snd r) = w_time w)"
proof -
  have "w_time (swim_probe_shuffle E w) = w_time w"
    by (simp add: swim_probe_shuffle_def Let_def c_alloc_def case_prod_unfold clock_shuffle_loop)
  then show ?thesis by (simp add: swim_probe_next_def Let_def case_prod_unfold)
qed

lemma clock_fill_gossip: "wp (\<lambda>_. True) (swim_fill_gossip E ev n w) (\<lambda>r. w_time (snd r) = w_time w)"
proof -
  let ?body = "\<lambda>i (ev, w). let (r, w) = c_rand E w in
           rbind (fill_slot ev i (w_swim w) (r mod view_size (w_swim w))) (\<lambda>ev. Inr (ev, w))"
  have "wp (\<lambda>_. True) (for_loop ?body [0..<n] (ev, w)) (\<lambda>r. w_time (snd r) = w_time w)"
    by (rule wp_for_loop) (auto simp: c_rand_def Let_def)
  then show ?thesis by (simp add: swim_fill_gossip_def)
qed

lemma clock_send_event: "wp (\<lambda>_. True) (swim_send_event E ev addr addrlen w) (\<lambda>r. w_time (snd r) = w_time w)"
  by (auto simp: swim_send_event_def c_sendto_def split: option.split intro!: wp_mono [OF wp_any])

lemma clock_send_message:
  "wp (\<lambda>_. True) (rbind (swim_event_create E ty n w) (\<lambda>(e, w).
      case e of None \<Rightarrow> Inl NullDeref
      | Some ev \<Rightarrow> rbind (swim_fill_gossip E (f ev) n w) (\<lambda>(ev, w). swim_send_event E ev addr addrlen w)))
     (\<lambda>r. w_time w \<le> w_time (snd r))"
proof -
  have send: "wp (\<lambda>_. True) (rbind (swim_fill_gossip E ev n w1) (\<lambda>(ev, w). swim_send_event E ev addr addrlen w))
     (\<lambda>r. w_time w \<le> w_time (snd r))" if "w_time w \<le> w_time w1" for ev w1
    using that unfolding wp_rbind
    by (intro wp_mono [OF clock_fill_gossip]) (auto simp: case_prod_unfold intro!: wp_mono [OF clock_send_event])
  have "wp (\<lambda>_. True) (swim_event_create E ty n w) (\<lambda>r. w_time w \<le> w_time (snd r))"
    by (simp add: swim_event_create_def Let_def c_alloc_def case_prod_unfold swim_event_init_def c_time_def)
  then show ?thesis
    unfolding wp_rbind by (rule wp_mono) (auto split: option.split intro: send [unfolded wp_rbind])
qed

lemma clock_send_ping: "wp (\<lambda>_. True) (swim_send_ping E addr addrlen w) (\<lambda>r. w_time w \<le> w_time (snd r))"
  using clock_send_message [of E EVENT_TYPE_PING _ w "\<lambda>ev. ev"] by (simp only: swim_send_ping_def Let_def)

lemma clock_send_ping_req: "wp (\<lambda>_. True) (swim_send_ping_req E u addr addrlen w) (\<lambda>r. w_time w \<le> w_time (snd r))"
  using clock_send_message [of E EVENT_TYPE_PING_REQ _ w "\<lambda>ev. ev\<lparr>ev_uuid := u\<rparr>"] by (simp only: swim_send_ping_req_def Let_def)

lemma clock_suspect_dead: "wp (\<lambda>_. True) (swim_cluster_suspect_dead E i w) (\<lambda>w'. w_time w \<le> w_time w')"
proof -
  have step: "wp (\<lambda>_. True) (suspect_dead_step E i start k w1) (\<lambda>w'. w_time w \<le> w_time w')" if "w_time w \<le> w_time w1" for start k w1
    using that by (auto simp: suspect_dead_step_def Let_def case_prod_unfold intro!: wp_mono [OF clock_send_ping_req])
  show ?thesis
    by (auto simp: swim_cluster_suspect_dead_def c_rand_def Let_def simp del: upt_Suc intro!: wp_for_loop step)
qed

lemma clock_heartbeat: "wp (\<lambda>_. True) (swim_cluster_heartbeat E w) (\<lambda>w'. w_time w < w_time w')"
proof -
  have node: "wp (\<lambda>_. True) (heartbeat_node E now i w1) (\<lambda>w'. w_time w < w_time w')" if "w_time w < w_time w1" for now i w1
    using that wp_mono [OF clock_suspect_dead [of E i w1], of "\<lambda>w'. w_time w < w_time w'"]
    by (auto simp: heartbeat_node_def Let_def swim_cluster_declare_dead_def split: Status.split)
  have probe: "wp (\<lambda>_. True) (heartbeat_probe E t w1) (\<lambda>w'. w_time w < w_time w')" if "w_time w < w_time w1" for t w1
    using that by (auto simp: heartbeat_probe_def case_prod_unfold split: option.split intro!: wp_mono [OF clock_send_ping])
  show ?thesis
    by (auto simp: swim_cluster_heartbeat_def c_time_def Let_def case_prod_unfold
        intro!: wp_mono [OF clock_probe_next] wp_mono [OF probe] wp_for_loop node)
qed

section \<open>A sequence of heartbeats\<close>

text \<open>Heartbeats with nothing in between.\<close>

primrec heartbeats :: "Ext \<Rightarrow> nat \<Rightarrow> World \<Rightarrow> World result" where
  "heartbeats E 0 w = Inr w"
| "heartbeats E (Suc n) w = rbind (swim_cluster_heartbeat E w) (heartbeats E n)"

lemma heartbeats_add: "heartbeats E (m + n) w = rbind (heartbeats E m w) (heartbeats E n)"
proof (induction m arbitrary: w)
  case (Suc m)
  then have "heartbeats E (m + n) = (\<lambda>w. rbind (heartbeats E m w) (heartbeats E n))" by auto
  then show ?case by (simp add: rbind_assoc)
qed simp

lemma heartbeat_record:
  assumes "wf_swim E (w_swim w)" "\<forall>k. x_alloc E k" "members (w_swim w) u = Some ni"
  shows "\<exists>w'. swim_cluster_heartbeat E w = Inr w' \<and> wf_swim E (w_swim w') \<and> w_time w < w_time w' \<and>
     (if heartbeat_due (x_time E (w_time w)) (w_swim w) then members (w_swim w') u = Some (age_info (x_time E (w_time w)) ni)
      else w_swim w' = w_swim w)"
proof (cases "heartbeat_due (x_time E (w_time w)) (w_swim w)")
  case True
  then obtain w' where w': "swim_cluster_heartbeat E w = Inr w'" "wf_swim E (w_swim w')"
    "members (w_swim w') = map_option (age_info (x_time E (w_time w))) \<circ> members (w_swim w)"
    using heartbeat_result [OF assms(1,2), unfolded if_P [OF True]] by blast
  with wp_InrD [OF clock_heartbeat w'(1)] assms(3) True show ?thesis by (intro exI [of _ w']) simp
next
  case False
  then obtain w' where w': "swim_cluster_heartbeat E w = Inr w'" "w_swim w' = w_swim w"
    using heartbeat_result [OF assms(1,2), unfolded if_not_P [OF False]] by blast
  with wp_InrD [OF clock_heartbeat w'(1)] assms(1) False show ?thesis by (intro exI [of _ w']) simp
qed

text \<open>The record of a silent node: only its status changes, and a status other than alive has its reason in a reading of the
  clock since \<open>t0\<close>.\<close>

definition aged :: "Ext \<Rightarrow> nat \<Rightarrow> NodeInfo \<Rightarrow> Status \<Rightarrow> nat \<Rightarrow> bool" where
  "aged E t0 ni st t \<longleftrightarrow> st = SWIM_STATUS_ALIVE \<or>
     st = SWIM_STATUS_SUSPECT \<and> (\<exists>k \<in> {t0..<t}. n_last_seen ni + 60 \<le> x_time E k) \<or>
     st = SWIM_STATUS_DEAD \<and> (\<exists>k \<in> {t0..<t}. n_last_seen ni + 120 \<le> x_time E k)"

lemma aged_step:
  assumes "aged E t0 ni st t" "t0 \<le> t" "t < t'"
  obtains st' where "age_info (x_time E t) (ni\<lparr>n_status := st\<rparr>) = ni\<lparr>n_status := st'\<rparr>" "aged E t0 ni st' t'"
    "st = SWIM_STATUS_DEAD \<Longrightarrow> st' = SWIM_STATUS_DEAD"
proof -
  have later: "\<exists>k \<in> {t0..<t'}. b \<le> x_time E k" if "\<exists>k \<in> {t0..<t}. b \<le> x_time E k" for b
    using that assms(3) by (meson atLeastLessThan_iff less_trans)
  have here: "\<exists>k \<in> {t0..<t'}. b \<le> x_time E k" if "b \<le> x_time E t" for b
    using that assms(2,3) by (meson atLeastLessThan_iff)
  show thesis
  proof (cases "age_info (x_time E t) (ni\<lparr>n_status := st\<rparr>) = ni\<lparr>n_status := st\<rparr>")
    case True
    then show thesis using that [of st] assms(1) later by (auto simp: aged_def)
  next
    case False
    then show thesis
      using assms(1) here that [of SWIM_STATUS_SUSPECT] that [of SWIM_STATUS_DEAD]
      by (auto simp: aged_def age_info_def split: if_splits)
  qed
qed

lemma heartbeats_run:
  assumes "wf_swim E (w_swim w)" "\<forall>k. x_alloc E k" "members (w_swim w) u = Some (ni\<lparr>n_status := st\<rparr>)"
    and "aged E t0 ni st (w_time w)" "t0 \<le> w_time w"
  shows "\<exists>w' st'. heartbeats E n w = Inr w' \<and> wf_swim E (w_swim w') \<and> w_time w + n \<le> w_time w' \<and>
     members (w_swim w') u = Some (ni\<lparr>n_status := st'\<rparr>) \<and> aged E t0 ni st' (w_time w') \<and>
     (st = SWIM_STATUS_DEAD \<longrightarrow> st' = SWIM_STATUS_DEAD)"
  using assms
proof (induction n arbitrary: w st)
  case 0
  then show ?case by auto
next
  case (Suc n)
  obtain w1 where w1: "swim_cluster_heartbeat E w = Inr w1" "wf_swim E (w_swim w1)" "w_time w < w_time w1"
    "if heartbeat_due (x_time E (w_time w)) (w_swim w) then members (w_swim w1) u = Some (age_info (x_time E (w_time w)) (ni\<lparr>n_status := st\<rparr>))
     else w_swim w1 = w_swim w"
    using heartbeat_record [OF Suc.prems(1-3)] by blast
  have "aged E t0 ni st (w_time w1)"
    using Suc.prems(4) w1(3) unfolding aged_def by (meson atLeastLessThan_iff less_trans)
  then obtain st1 where st1: "members (w_swim w1) u = Some (ni\<lparr>n_status := st1\<rparr>)" "aged E t0 ni st1 (w_time w1)"
    "st = SWIM_STATUS_DEAD \<longrightarrow> st1 = SWIM_STATUS_DEAD"
    using w1(4) Suc.prems(3) aged_step [OF Suc.prems(4,5) w1(3)] by (auto split: if_splits)
  have "t0 \<le> w_time w1" using Suc.prems(5) w1(3) by simp
  from Suc.IH [OF w1(2) Suc.prems(2) st1(1,2) this] show ?case
    using w1(1,3) st1(3) by (fastforce simp del: fun_upd_apply)
qed

text \<open>While no heartbeat is due nothing changes, and one is due in the end.\<close>

lemma heartbeat_gets_due:
  assumes "wf_swim E (w_swim w)" "\<forall>k. x_alloc E k" "members (w_swim w) u = Some ni"
    and "mono (x_time E)" "last_heartbeat (w_swim w) + 1 < x_time E K"
  shows "\<exists>n w'. heartbeats E n w = Inr w' \<and> w_swim w' = w_swim w \<and> w_time w \<le> w_time w' \<and>
           heartbeat_due (x_time E (w_time w')) (w_swim w')"
  using assms
proof (induction "K - w_time w" arbitrary: w rule: less_induct)
  case less
  show ?case
  proof (cases "heartbeat_due (x_time E (w_time w)) (w_swim w)")
    case True
    then show ?thesis by (intro exI [of _ 0] exI [of _ w]) simp
  next
    case False
    have "0 < view_size (w_swim w)" using less.prems(3) by (cases "view_size (w_swim w)") (auto simp: members_def)
    then have "w_time w < K"
      using False less.prems(4,5) monoD [OF less.prems(4), of K "w_time w"] by (force simp: heartbeat_due_def)
    obtain w1 where w1: "swim_cluster_heartbeat E w = Inr w1" "wf_swim E (w_swim w1)" "w_time w < w_time w1" "w_swim w1 = w_swim w"
      using heartbeat_record [OF less.prems(1-3)] False by auto
    obtain n w' where "heartbeats E n w1 = Inr w'" "w_swim w' = w_swim w1" "w_time w1 \<le> w_time w'"
      "heartbeat_due (x_time E (w_time w')) (w_swim w')"
      using less.hyps [OF _ w1(2) less.prems(2), unfolded w1(4), OF _ less.prems(3-5)] w1(3,4) \<open>w_time w < K\<close> by (metis diff_less_mono2)
    then show ?thesis using w1 by (intro exI [of _ "Suc n"] exI [of _ w']) simp
  qed
qed

text \<open>Once the node has been silent for 120 seconds, it is taken one step further.\<close>

lemma heartbeats_raise:
  assumes "wf_swim E (w_swim w)" "\<forall>k. x_alloc E k" "members (w_swim w) u = Some (ni\<lparr>n_status := st\<rparr>)"
    and "mono (x_time E)" "\<forall>t. \<exists>k. t \<le> x_time E k" "n_last_seen ni + 120 \<le> x_time E (w_time w)"
    and "st = SWIM_STATUS_ALIVE \<and> st' = SWIM_STATUS_SUSPECT \<or> st \<in> {SWIM_STATUS_SUSPECT, SWIM_STATUS_DEAD} \<and> st' = SWIM_STATUS_DEAD"
  shows "\<exists>n w'. heartbeats E n w = Inr w' \<and> wf_swim E (w_swim w') \<and> w_time w \<le> w_time w' \<and>
           members (w_swim w') u = Some (ni\<lparr>n_status := st'\<rparr>)"
proof -
  obtain K where "last_heartbeat (w_swim w) + 2 \<le> x_time E K" using assms(5) by blast
  then obtain n w1 where w1: "heartbeats E n w = Inr w1" "w_swim w1 = w_swim w" "w_time w \<le> w_time w1"
    "heartbeat_due (x_time E (w_time w1)) (w_swim w1)"
    using heartbeat_gets_due [OF assms(1-4), of K] by auto
  have late: "n_last_seen ni + 120 \<le> x_time E (w_time w1)" using assms(6) monoD [OF assms(4) w1(3)] by linarith
  have w1': "wf_swim E (w_swim w1)" "members (w_swim w1) u = Some (ni\<lparr>n_status := st\<rparr>)" using assms(1,3) w1(2) by simp_all
  obtain w' where w': "swim_cluster_heartbeat E w1 = Inr w'" "wf_swim E (w_swim w')" "w_time w1 < w_time w'"
    "members (w_swim w') u = Some (age_info (x_time E (w_time w1)) (ni\<lparr>n_status := st\<rparr>))"
    using heartbeat_record [OF w1'(1) assms(2) w1'(2)] w1(4) by auto
  moreover have "heartbeats E (n + 1) w = Inr w'" using w1(1) w'(1) by (simp only: heartbeats_add) simp
  moreover have "age_info (x_time E (w_time w1)) (ni\<lparr>n_status := st\<rparr>) = ni\<lparr>n_status := st'\<rparr>"
    using late assms(7) by (auto simp: age_info_def)
  ultimately show ?thesis using w1(3) by (intro exI [of _ "n + 1"] exI [of _ w']) simp
qed

section \<open>Examples\<close>

text \<open>A clock that passes a hundred seconds with every reading.\<close>

definition fast_env :: Ext where
  "fast_env = calm_env\<lparr>x_time := \<lambda>k. 1060 + 100 * int k\<rparr>"

lemma fast_env [simp]:
  "wf_swim fast_env sample_swim" "x_alloc fast_env k" "x_time fast_env k = 1060 + 100 * int k"
  using wf_sample by (simp_all add: fast_env_def wf_swim_def ascending_def wf_probe_def)

section \<open>Properties\<close>

text \<open>C12: A heartbeat that is due ages every record by the clock and by nothing else: a node believed alive that has not
  been heard for 60 seconds becomes suspect, a suspect one not heard for 120 seconds is declared dead, all others stay
  as they are. The time at which a suspicion arose is not used. It sends at most one ping, to a node of the view that is
  not dead, and otherwise only requests to ping. A heartbeat that is not due does nothing.\<close>

theorem heartbeat_ages:
  assumes "wf_swim E (w_swim w)" "\<forall>k. x_alloc E k"
  shows "\<exists>w'. swim_cluster_heartbeat E w = Inr w' \<and> wf_swim E (w_swim w') \<and>
     (if heartbeat_due (x_time E (w_time w)) (w_swim w) then
        members (w_swim w') = map_option (age_info (x_time E (w_time w))) \<circ> members (w_swim w) \<and>
        last_heartbeat (w_swim w') = x_time E (w_time w) \<and>
        (\<exists>pings reqs. w_sent w' = w_sent w @ pings @ reqs \<and> heartbeat_ping E (w_swim w) pings \<and>
           only_ping_reqs E (s_uuid (w_swim w)) (view_size (w_swim w)) reqs)
      else w_swim w' = w_swim w \<and> w_sent w' = w_sent w)"
  using heartbeat_result [OF assms] by blast

theorem heartbeat_ages_witness:
  "\<exists>w'. swim_cluster_heartbeat calm_env sample_world = Inr w' \<and>
     map_option n_status (members (w_swim w') 2) = Some SWIM_STATUS_ALIVE \<and>
     map_option n_status (members (w_swim w') 5) = Some SWIM_STATUS_SUSPECT"
  using heartbeat_ages [of calm_env sample_world]
  by (auto simp: heartbeat_due_def members_sample age_info_def zero_info_def)

text \<open>C13: The detector is complete and not hasty. Suppose that the clock does not go back and passes every bound, and that
  heartbeats follow one another without a message in between. Then a node believed alive is declared dead at some
  heartbeat and stays dead, whatever else the view contains. At every heartbeat only the status of its record has changed;
  it is suspect only if a reading of the clock since the start was at least 60, and dead only if one was at least 120 seconds
  after the node was last seen. When the suspicion arose plays no part in this.\<close>

theorem silent_node_dies:
  assumes "wf_swim E (w_swim w)" "\<forall>k. x_alloc E k"
    and "members (w_swim w) u = Some ni" "n_status ni = SWIM_STATUS_ALIVE"
    and "mono (x_time E)" "\<forall>t. \<exists>k. t \<le> x_time E k"
  shows "(\<exists>N. \<forall>n \<ge> N. \<exists>w'. heartbeats E n w = Inr w' \<and> members (w_swim w') u = Some (ni\<lparr>n_status := SWIM_STATUS_DEAD\<rparr>)) \<and>
         (\<forall>n. \<exists>w' st. heartbeats E n w = Inr w' \<and> members (w_swim w') u = Some (ni\<lparr>n_status := st\<rparr>) \<and>
            (st = SWIM_STATUS_ALIVE \<or>
             st = SWIM_STATUS_SUSPECT \<and> (\<exists>k \<in> {w_time w..<w_time w'}. n_last_seen ni + 60 \<le> x_time E k) \<or>
             st = SWIM_STATUS_DEAD \<and> (\<exists>k \<in> {w_time w..<w_time w'}. n_last_seen ni + 120 \<le> x_time E k)))"
proof
  have rec: "members (w_swim w) u = Some (ni\<lparr>n_status := SWIM_STATUS_ALIVE\<rparr>)" using assms(3,4) by simp
  have start: "aged E (w_time w) ni SWIM_STATUS_ALIVE (w_time w)" by (simp add: aged_def)
  note run = heartbeats_run [OF assms(1,2) rec start order_refl]
  from run show "\<forall>n. \<exists>w' st. heartbeats E n w = Inr w' \<and> members (w_swim w') u = Some (ni\<lparr>n_status := st\<rparr>) \<and>
            (st = SWIM_STATUS_ALIVE \<or>
             st = SWIM_STATUS_SUSPECT \<and> (\<exists>k \<in> {w_time w..<w_time w'}. n_last_seen ni + 60 \<le> x_time E k) \<or>
             st = SWIM_STATUS_DEAD \<and> (\<exists>k \<in> {w_time w..<w_time w'}. n_last_seen ni + 120 \<le> x_time E k))"
    unfolding aged_def by blast
  obtain K where K: "n_last_seen ni + 120 \<le> x_time E K" using assms(6) by blast
  obtain w1 st1 where w1: "heartbeats E K w = Inr w1" "wf_swim E (w_swim w1)" "w_time w + K \<le> w_time w1"
    "members (w_swim w1) u = Some (ni\<lparr>n_status := st1\<rparr>)" "aged E (w_time w) ni st1 (w_time w1)" using run [of K] by blast
  have late: "n_last_seen ni + 120 \<le> x_time E t" if "w_time w1 \<le> t" for t
    using K monoD [OF assms(5), of K t] w1(3) that by linarith
  define st2 where "st2 = (if st1 = SWIM_STATUS_ALIVE then SWIM_STATUS_SUSPECT else SWIM_STATUS_DEAD)"
  have st: "st1 = SWIM_STATUS_ALIVE \<and> st2 = SWIM_STATUS_SUSPECT \<or> st1 \<in> {SWIM_STATUS_SUSPECT, SWIM_STATUS_DEAD} \<and> st2 = SWIM_STATUS_DEAD"
    using w1(5) by (auto simp: aged_def st2_def)
  obtain n2 w2 where w2: "heartbeats E n2 w1 = Inr w2" "wf_swim E (w_swim w2)" "w_time w1 \<le> w_time w2"
    "members (w_swim w2) u = Some (ni\<lparr>n_status := st2\<rparr>)"
    using heartbeats_raise [OF w1(2) assms(2) w1(4) assms(5,6) late [OF order_refl] st] by blast
  obtain n3 w3 where w3: "heartbeats E n3 w2 = Inr w3" "wf_swim E (w_swim w3)"
    "members (w_swim w3) u = Some (ni\<lparr>n_status := SWIM_STATUS_DEAD\<rparr>)" "w_time w2 \<le> w_time w3"
    using heartbeats_raise [OF w2(2) assms(2) w2(4) assms(5,6) late [OF w2(3)], of SWIM_STATUS_DEAD] st by blast
  let ?N = "K + (n2 + n3)"
  have N: "heartbeats E ?N w = Inr w3" using w1(1) w2(1) w3(1) by (simp add: heartbeats_add)
  obtain st3 where st3: "members (w_swim w3) u = Some (ni\<lparr>n_status := st3\<rparr>)" "aged E (w_time w) ni st3 (w_time w3)" "w_time w \<le> w_time w3"
    using run [of ?N] N by auto
  have "st3 = SWIM_STATUS_DEAD"
    using arg_cong [OF trans [OF st3(1) [symmetric] w3(3)], of "map_option n_status"] by simp
  then have "\<exists>w'. heartbeats E m w3 = Inr w' \<and> members (w_swim w') u = Some (ni\<lparr>n_status := SWIM_STATUS_DEAD\<rparr>)" for m
    using heartbeats_run [OF w3(2) assms(2) st3, of m] by blast
  then have "\<exists>w'. heartbeats E (?N + m) w = Inr w' \<and> members (w_swim w') u = Some (ni\<lparr>n_status := SWIM_STATUS_DEAD\<rparr>)" for m
    unfolding heartbeats_add [of E ?N] N by simp
  then show "\<exists>N. \<forall>n \<ge> N. \<exists>w'. heartbeats E n w = Inr w' \<and> members (w_swim w') u = Some (ni\<lparr>n_status := SWIM_STATUS_DEAD\<rparr>)"
    by (metis le_add_diff_inverse)
qed

theorem silent_node_dies_witness:
  "\<exists>n w'. heartbeats fast_env n sample_world = Inr w' \<and> map_option n_status (members (w_swim w') 2) = Some SWIM_STATUS_DEAD"
proof -
  let ?ni = "info (sample_node 2 SWIM_STATUS_ALIVE 990)"
  have "\<exists>k. t \<le> x_time fast_env k" for t
    by (rule exI [of _ "nat t"]) simp
  then have "\<exists>N. \<forall>n \<ge> N. \<exists>w'. heartbeats fast_env n sample_world = Inr w' \<and> members (w_swim w') 2 = Some (?ni\<lparr>n_status := SWIM_STATUS_DEAD\<rparr>)"
    by (intro silent_node_dies [THEN conjunct1]) (simp_all add: members_sample zero_info_def mono_def)
  then obtain N w' where "heartbeats fast_env N sample_world = Inr w'" "members (w_swim w') 2 = Some (?ni\<lparr>n_status := SWIM_STATUS_DEAD\<rparr>)"
    by blast
  then show ?thesis by (intro exI [of _ N] exI [of _ w']) simp
qed

text \<open>C28: When a node is suspected, the requests to ping it go only to other nodes believed alive and name the suspect;
  their number is bounded by the distance of the random starting point to five (or to the size of the view), so that
  from a starting point of five or more no request is sent at all.\<close>

theorem suspect_dead_bound:
  assumes "wf_swim E (w_swim w)" "target < view_size (w_swim w)" "\<forall>k. x_alloc E k"
  shows "\<exists>w' ds. swim_cluster_suspect_dead E target w = Inr w' \<and>
           w_swim w' = upd_node target (set_status SWIM_STATUS_SUSPECT) (w_swim w) \<and>
           w_sent w' = w_sent w @ ds \<and> ping_reqs E (w_swim w') target ds \<and>
           length ds \<le> min (view_size (w_swim w)) SWIM_MAXPINGREQ - x_rand E (w_rand w) mod view_size (w_swim w)"
proof -
  have "null_allowed E (\<lambda>_. False)" using assms(3) by (simp add: null_allowed_def)
  from wp_exists [OF wp_swim_cluster_suspect_dead [OF assms(1,2) this]] show ?thesis by blast
qed

theorem suspect_dead_bound_witness:
  "\<exists>w' ds. swim_cluster_suspect_dead calm_env 1 (sample_world\<lparr>w_rand := 2\<rparr>) = Inr w' \<and> w_sent w' = ds \<and> length ds \<le> 1"
  using suspect_dead_bound [of calm_env "sample_world\<lparr>w_rand := 2\<rparr>" 1] by auto

text \<open>C29: Leaving sends the same leave event to consecutive nodes of the view, five of them or all if there are fewer,
  starting at a random one. The event names no node: its identifier is zero.\<close>

theorem leave_datagrams:
  assumes "wf_swim E (w_swim w)"
  shows "\<exists>w' ev. swim_cluster_leave E w = Inr w' \<and> w_swim w' = w_swim w \<and>
           h_type (hdr ev) = EVENT_TYPE_LEAVE \<and> ev_uuid ev = 0 \<and> gossip_count ev = 0 \<and>
           w_sent w' = w_sent w @ map (\<lambda>i. node_datagram E (w_swim w) ev
             ((x_rand E (w_rand w) mod view_size (w_swim w) + i) mod view_size (w_swim w)))
             [0..<min (view_size (w_swim w)) SWIM_MAXLEAVE]"
  using wp_exists [OF wp_swim_cluster_leave [OF assms, of "\<lambda>_. False"]] by blast

theorem leave_datagrams_witness:
  "\<exists>w'. swim_cluster_leave calm_env sample_world = Inr w' \<and> length (w_sent w') = 3"
  using leave_datagrams [of calm_env sample_world] by auto

end
