(* ===== verification/Swim_Text.thy ===== *)
theory Swim_Text
  imports Swim_Event Swim_Wire
begin

text \<open>
  Text: the string helpers of \<open>swim/utils.c\<close>, the printing of events (\<open>swim/event.c\<close>) and of the state
  (\<open>swim/state.c\<close>), the log of \<open>swim/logging.c\<close>, and \<open>examples/swim_common.c\<close>.

  A character array is the list of its elements, a C string in it ends at the first null character, and
  reading a string that does not end is \<open>OutOfBounds\<close>. Passing a null pointer for \<open>%s\<close> is undefined in C
  and is \<open>NullDeref\<close> here. \<open>Text\<close> collects what comes from outside: \<open>uuid_unparse\<close> of libuuid,
  \<open>getnameinfo\<close> by its flags, \<open>localtime_r\<close> followed by \<open>strftime\<close> with \<open>"%F %T"\<close> and with \<open>"%c"\<close>, and
  what a local array holds before it is written, by the place and the size of the array.
\<close>

section \<open>C strings\<close>

abbreviation NUL :: char where "NUL \<equiv> CHR 0x00"

definition c_string :: "char list \<Rightarrow> string result" where
  "c_string buf = (if NUL \<in> set buf then Inr (takeWhile (\<lambda>c. c \<noteq> NUL) buf) else Inl OutOfBounds)"

definition c_sprintf :: "char list \<Rightarrow> nat \<Rightarrow> string \<Rightarrow> char list result" where
  "c_sprintf buf pos text =
     (let out = text @ [NUL] in
      if pos + length out \<le> length buf then Inr (take pos buf @ out @ drop (pos + length out) buf)
      else Inl MemOverflow)"

definition c_snprintf :: "char list \<Rightarrow> nat \<Rightarrow> string \<Rightarrow> char list result" where
  "c_snprintf buf buflen text = (if buflen = 0 then Inr buf else c_sprintf buf 0 (take (buflen - 1) text))"

text \<open>The argument of a \<open>%s\<close>: a pointer to an array, which may be null.\<close>

definition c_arg :: "char list option \<Rightarrow> string result" where
  "c_arg p = (case p of None \<Rightarrow> Inl NullDeref | Some buf \<Rightarrow> c_string buf)"

definition pad :: "nat \<Rightarrow> string \<Rightarrow> string" where
  "pad n s = s @ replicate (n - length s) CHR '' ''"

text \<open>\<open>strftime\<close> stores nothing useful when the text does not fit.\<close>

definition c_strftime :: "char list \<Rightarrow> nat \<Rightarrow> string \<Rightarrow> char list result" where
  "c_strftime buf bufsize text = (if length text < bufsize then c_sprintf buf 0 text else Inr buf)"

section \<open>Data\<close>

abbreviation SWIM_UUID_STR_LEN :: nat where "SWIM_UUID_STR_LEN \<equiv> 37"
abbreviation NI_MAXHOST :: nat where "NI_MAXHOST \<equiv> 1025"
abbreviation NI_MAXSERV :: nat where "NI_MAXSERV \<equiv> 32"
abbreviation ADDR_STR_LEN :: nat where "ADDR_STR_LEN \<equiv> NI_MAXHOST + NI_MAXSERV + 2"

datatype NameFlags = NI_NUMERICSERV | NI_NAMEREQD

record Text =
  t_uuid_unparse :: "uuid \<Rightarrow> string"
  t_getnameinfo :: "NameFlags \<Rightarrow> byte list \<Rightarrow> (string \<times> string) option"
  t_localtime :: "time_t \<Rightarrow> string option"
  t_clock :: "time_t \<Rightarrow> string"
  t_stack :: "nat \<Rightarrow> nat \<Rightarrow> char list"

section \<open>Operations: \<open>swim/utils.c\<close>\<close>

definition swim_addr_str_r :: "Text \<Rightarrow> byte list \<Rightarrow> nat \<Rightarrow> char list \<Rightarrow> nat \<Rightarrow> char list option result" where
  "swim_addr_str_r T addr addrlen buf buflen =
     (if 0 < addrlen then
        (case t_getnameinfo T NI_NUMERICSERV (take addrlen addr) of
           None \<Rightarrow> Inr None
         | Some (host, service) \<Rightarrow> rbind (c_snprintf buf buflen (host @ '':'' @ service)) (\<lambda>buf. Inr (Some buf)))
      else Inr (Some buf))"

definition swim_uuid_str_r :: "Text \<Rightarrow> uuid \<Rightarrow> char list \<Rightarrow> nat \<Rightarrow> char list option result" where
  "swim_uuid_str_r T u buf buflen =
     (if buflen < SWIM_UUID_STR_LEN then Inr None
      else rbind (c_sprintf buf 0 (t_uuid_unparse T u)) (\<lambda>buf. Inr (Some buf)))"

text \<open>The two as they are used: with a local array as the buffer, and the result for a \<open>%s\<close>.\<close>

definition uuid_arg :: "Text \<Rightarrow> nat \<Rightarrow> uuid \<Rightarrow> string result" where
  "uuid_arg T k u = rbind (swim_uuid_str_r T u (t_stack T k SWIM_UUID_STR_LEN) SWIM_UUID_STR_LEN) c_arg"

definition addr_ptr :: "Text \<Rightarrow> nat \<Rightarrow> byte list \<Rightarrow> nat \<Rightarrow> char list option result" where
  "addr_ptr T k addr addrlen = swim_addr_str_r T addr addrlen (t_stack T k ADDR_STR_LEN) ADDR_STR_LEN"

section \<open>Operations: printing events, \<open>swim/event.c\<close>\<close>

definition swim_print_ping :: "Text \<Rightarrow> Event \<Rightarrow> char list \<Rightarrow> nat \<Rightarrow> char list result" where
  "swim_print_ping T ev buf buflen = c_snprintf buf buflen ''PING''"

definition swim_print_ack :: "Text \<Rightarrow> Event \<Rightarrow> char list \<Rightarrow> nat \<Rightarrow> char list result" where
  "swim_print_ack T ev buf buflen =
     rbind (uuid_arg T 0 (ev_uuid ev)) (\<lambda>u. c_snprintf buf buflen (''ACK('' @ u @ '')''))"

definition swim_print_ping_req :: "Text \<Rightarrow> Event \<Rightarrow> char list \<Rightarrow> nat \<Rightarrow> char list result" where
  "swim_print_ping_req T ev buf buflen =
     rbind (uuid_arg T 0 (ev_uuid ev)) (\<lambda>u. c_snprintf buf buflen (''PING_REQ('' @ u @ '')''))"

definition swim_print_join :: "Text \<Rightarrow> Event \<Rightarrow> char list \<Rightarrow> nat \<Rightarrow> char list result" where
  "swim_print_join T ev buf buflen =
     rbind (uuid_arg T 0 (ev_uuid ev)) (\<lambda>u.
     if 0 < join_addrlen ev then
       rbind (addr_ptr T 0 (join_addr ev) (join_addrlen ev)) (\<lambda>p.
       rbind (c_arg p) (\<lambda>a.
       c_snprintf buf buflen (''JOIN('' @ u @ '', '' @ a @ '')'')))
     else c_snprintf buf buflen (''JOIN('' @ u @ '')''))"

definition swim_print_leave :: "Text \<Rightarrow> Event \<Rightarrow> char list \<Rightarrow> nat \<Rightarrow> char list result" where
  "swim_print_leave T ev buf buflen =
     rbind (uuid_arg T 0 (ev_uuid ev)) (\<lambda>u. c_snprintf buf buflen (''LEAVE('' @ u @ '')''))"

definition swim_event :: "EventType \<Rightarrow> (Text \<Rightarrow> Event \<Rightarrow> char list \<Rightarrow> nat \<Rightarrow> char list result) option result" where
  "swim_event ty =
     (case ty of
        EVENT_TYPE_PING \<Rightarrow> Inr (Some swim_print_ping)
      | EVENT_TYPE_PING_REQ \<Rightarrow> Inr (Some swim_print_ping_req)
      | EVENT_TYPE_ACK \<Rightarrow> Inr (Some swim_print_ack)
      | EVENT_TYPE_JOIN \<Rightarrow> Inr (Some swim_print_join)
      | EVENT_TYPE_LEAVE \<Rightarrow> Inr (Some swim_print_leave)
      | EVENT_TYPE_OTHER n \<Rightarrow> if n < 18 then Inr None else Inl OutOfBounds)"

text \<open>The static array is an argument and the result.\<close>

definition swim_event_print :: "Text \<Rightarrow> Event \<Rightarrow> char list \<Rightarrow> char list result" where
  "swim_event_print T ev buf =
     rbind (swim_event (h_type (hdr ev))) (\<lambda>print.
     case print of None \<Rightarrow> Inl NullDeref | Some f \<Rightarrow> f T ev buf 128)"

definition swim_event_decode :: "byte list \<Rightarrow> byte list \<Rightarrow> nat \<Rightarrow> (bool \<times> byte list) result" where
  "swim_event_decode event buf buflen = rbind (memcpy event buf buflen) (\<lambda>event. Inr (True, event))"

definition swim_event_string :: "Text \<Rightarrow> Event \<Rightarrow> char list \<Rightarrow> nat \<Rightarrow> (bool \<times> char list) result" where
  "swim_event_string T ev buf buflen =
     (let finish = \<lambda>prefix buf.
        rbind (c_sprintf buf 0 prefix) (\<lambda>buf.
        rbind (c_sprintf buf (length prefix) (t_uuid_unparse T (h_uuid (hdr ev)))) (\<lambda>buf. Inr (True, buf)))
      in
      if length buf < buflen then Inl MemOverflow
      else
        let buf = replicate buflen NUL @ drop buflen buf in
        case h_type (hdr ev) of
          EVENT_TYPE_PING \<Rightarrow> finish ''ping from '' buf
        | EVENT_TYPE_ACK \<Rightarrow> finish ''ack from '' buf
        | EVENT_TYPE_JOIN \<Rightarrow> finish ''join from '' buf
        | EVENT_TYPE_LEAVE \<Rightarrow> finish ''leave from '' buf
        | _ \<Rightarrow> Inr (False, buf))"

section \<open>Operations: printing the state, \<open>swim/state.c\<close>\<close>

text \<open>The static variables of \<open>state.c\<close> that direct the printout, with the data the callback works on, and what has
  been written to the standard error stream.\<close>

record 'u Printer =
  print_callback :: "(SWIM \<Rightarrow> 'u \<Rightarrow> 'u result) option"
  print_callback_userdata :: 'u
  print_stderr :: string

abbreviation newline :: string where "newline \<equiv> [CHR 0x0A]"

abbreviation ADDR_WIDTH :: nat where "ADDR_WIDTH \<equiv> 16 + 5"

definition swim_state_set_print_callback ::
  "(SWIM \<Rightarrow> 'u \<Rightarrow> 'u result) option \<Rightarrow> 'u \<Rightarrow> 'u Printer \<Rightarrow> 'u Printer" where
  "swim_state_set_print_callback cb userdata pr = pr\<lparr>print_callback := cb, print_callback_userdata := userdata\<rparr>"

definition time_as_string :: "Text \<Rightarrow> time_t \<Rightarrow> char list \<Rightarrow> nat \<Rightarrow> char list option result" where
  "time_as_string T t buf bufsize =
     (case t_localtime T t of
        None \<Rightarrow> Inr None
      | Some text \<Rightarrow> rbind (c_strftime buf bufsize text) (\<lambda>buf. Inr (Some buf)))"

definition time_arg :: "Text \<Rightarrow> nat \<Rightarrow> time_t \<Rightarrow> string result" where
  "time_arg T k t = rbind (time_as_string T t (t_stack T k 128) 128) c_arg"

definition witness_ptr :: "Text \<Rightarrow> nat \<Rightarrow> NodeState \<Rightarrow> char list option result" where
  "witness_ptr T k nd = (if 0 < w_addrlen nd then addr_ptr T k (w_addr nd) (w_addrlen nd) else Inr (Some [NUL]))"

text \<open>One row of the table; \<open>k\<close> tells the local arrays of the rows apart.\<close>

definition print_row :: "Text \<Rightarrow> nat \<Rightarrow> NodeState \<Rightarrow> string result" where
  "print_row T k nd =
     rbind (addr_ptr T (2 * k) (n_addr (info nd)) (n_addrlen (info nd))) (\<lambda>address.
     case address of
       Some a \<Rightarrow>
         rbind (witness_ptr T (2 * k + 1) nd) (\<lambda>witness.
         rbind (uuid_arg T k (node_uuid nd)) (\<lambda>u.
         rbind (time_arg T k (n_last_seen (info nd))) (\<lambda>t.
         rbind (swim_status_name (node_status nd)) (\<lambda>st.
         rbind (c_string a) (\<lambda>a.
         rbind (c_arg witness) (\<lambda>wi.
         Inr (pad 40 u @ '' '' @ pad 26 t @ '' '' @ pad 10 st @ '' '' @ pad ADDR_WIDTH a @ '' '' @ pad ADDR_WIDTH wi @ newline)))))))
     | None \<Rightarrow>
         rbind (uuid_arg T k (node_uuid nd)) (\<lambda>u.
         rbind (time_arg T k (n_last_seen (info nd))) (\<lambda>t.
         rbind (swim_status_name (node_status nd)) (\<lambda>st.
         Inr (pad 40 u @ '' '' @ pad 20 t @ '' '' @ pad 10 st @ newline)))))"

definition print_node :: "Text \<Rightarrow> SWIM \<Rightarrow> nat \<Rightarrow> string \<Rightarrow> string result" where
  "print_node T s i out =
     (if i < length (view s) then rbind (print_row T i (view s ! i)) (\<lambda>row. Inr (out @ row)) else Inl OutOfBounds)"

definition print_header :: string where
  "print_header = pad 40 ''UUID'' @ '' '' @ pad 26 ''LAST_SEEN'' @ '' '' @ pad 10 ''STATUS'' @ '' '' @
     pad ADDR_WIDTH ''ADDRESS'' @ '' '' @ pad ADDR_WIDTH ''WITNESS'' @ newline"

definition swim_state_print :: "Text \<Rightarrow> SWIM \<Rightarrow> 'u Printer \<Rightarrow> 'u Printer result" where
  "swim_state_print T s pr =
     (case print_callback pr of
        Some cb \<Rightarrow> rbind (cb s (print_callback_userdata pr)) (\<lambda>u. Inr (pr\<lparr>print_callback_userdata := u\<rparr>))
      | None \<Rightarrow>
          rbind (uuid_arg T 0 (s_uuid s)) (\<lambda>u.
          rbind (for_loop (print_node T s) [0..<view_size s] (print_stderr pr @ ''UUID: '' @ u @ newline @ print_header)) (\<lambda>out.
          Inr (pr\<lparr>print_stderr := out\<rparr>))))"

section \<open>Operations: logging, \<open>swim/logging.c\<close> and \<open>swim/logging.h\<close>\<close>

record 'u Logger =
  swim_verbose :: bool
  swim_tracing_on :: bool
  log_sink :: "(string \<Rightarrow> 'u \<Rightarrow> 'u result) option"
  log_sink_userdata :: 'u
  log_stderr :: string

definition swim_set_log_sink :: "(string \<Rightarrow> 'u \<Rightarrow> 'u result) option \<Rightarrow> 'u \<Rightarrow> 'u Logger \<Rightarrow> 'u Logger" where
  "swim_set_log_sink sink userdata L = L\<lparr>log_sink := sink, log_sink_userdata := userdata\<rparr>"

text \<open>The formatted text is the argument.\<close>

definition swim_log_write :: "string \<Rightarrow> 'u Logger \<Rightarrow> 'u Logger result" where
  "swim_log_write text L =
     (let msg = take 1023 text in
      case log_sink L of
        Some sink \<Rightarrow> rbind (sink msg (log_sink_userdata L)) (\<lambda>u. Inr (L\<lparr>log_sink_userdata := u\<rparr>))
      | None \<Rightarrow> Inr (L\<lparr>log_stderr := log_stderr L @ msg @ newline\<rparr>))"

definition LOG :: "Text \<Rightarrow> time_t \<Rightarrow> string \<Rightarrow> 'u Logger \<Rightarrow> 'u Logger result" where
  "LOG T now msg L =
     (if swim_verbose L \<and> 0 < length (t_clock T now) \<and> length (t_clock T now) < 200
      then swim_log_write (t_clock T now @ '' '' @ msg) L else Inr L)"

definition TRACE :: "bool \<Rightarrow> string \<Rightarrow> string \<Rightarrow> 'u Logger \<Rightarrow> 'u Logger result" where
  "TRACE SWIM_TRACING func msg L =
     (if SWIM_TRACING \<and> swim_tracing_on L then swim_log_write (func @ '': '' @ msg) L else Inr L)"

section \<open>Operations: \<open>examples/swim_common.c\<close>\<close>

definition show_family :: "nat \<Rightarrow> string option result" where
  "show_family val =
     (if val = 2 then Inr (Some ''AF_INET'') else if val = 10 then Inr (Some ''AF_INET6'')
      else if val < 10 then Inr None else Inl OutOfBounds)"

definition sa_family :: "bool \<Rightarrow> byte list \<Rightarrow> nat result" where
  "sa_family le addr =
     (case addr of
        a # b # _ \<Rightarrow> Inr (if le then unat a + 256 * unat b else 256 * unat a + unat b)
      | _ \<Rightarrow> Inl OutOfBounds)"

definition show_address :: "Text \<Rightarrow> bool \<Rightarrow> byte list \<Rightarrow> nat \<Rightarrow> char list \<Rightarrow> nat \<Rightarrow> char list option result" where
  "show_address T le addr addrlen buf buflen =
     (case t_getnameinfo T NI_NAMEREQD (take addrlen addr) of
        None \<Rightarrow> Inr None
      | Some (hostname, service) \<Rightarrow>
          rbind (sa_family le addr) (\<lambda>f.
          rbind (show_family f) (\<lambda>fam.
          case fam of
            None \<Rightarrow> Inl NullDeref
          | Some family \<Rightarrow>
              rbind (c_snprintf buf buflen (''family '' @ family @ '' host '' @ hostname @ '' service '' @ service)) (\<lambda>buf.
              Inr (Some buf)))))"

section \<open>Lemmas\<close>

lemma c_sprintf_string:
  assumes "NUL \<notin> set text" "length text < length buf"
  obtains buf' where "c_sprintf buf 0 text = Inr buf'" "length buf' = length buf" "c_string buf' = Inr text"
proof
  show "c_sprintf buf 0 text = Inr (text @ NUL # drop (Suc (length text)) buf)"
    using assms(2) by (simp add: c_sprintf_def Let_def)
  show "length (text @ NUL # drop (Suc (length text)) buf) = length buf" using assms(2) by simp
  show "c_string (text @ NUL # drop (Suc (length text)) buf) = Inr text"
    using assms(1) by (auto simp: c_string_def takeWhile_append)
qed

lemma c_snprintf_string:
  assumes "NUL \<notin> set text" "0 < buflen" "buflen \<le> length buf"
  obtains buf' where "c_snprintf buf buflen text = Inr buf'" "length buf' = length buf" "c_string buf' = Inr (take (buflen - 1) text)"
proof -
  have "NUL \<notin> set (take (buflen - 1) text)" using assms(1) by (meson in_set_takeD)
  moreover have "length (take (buflen - 1) text) < length buf" using assms(2,3) by simp
  ultimately obtain buf' where "c_sprintf buf 0 (take (buflen - 1) text) = Inr buf'" "length buf' = length buf"
    "c_string buf' = Inr (take (buflen - 1) text)" by (rule c_sprintf_string)
  then show thesis using that assms(2) by (simp add: c_snprintf_def)
qed

locale text_env =
  fixes T :: Text
  assumes unparse: "length (t_uuid_unparse T u) = 36" "NUL \<notin> set (t_uuid_unparse T u)"
    and names: "t_getnameinfo T fl a = Some (host, service) \<Longrightarrow>
      length host < NI_MAXHOST \<and> length service < NI_MAXSERV \<and> NUL \<notin> set host \<and> NUL \<notin> set service"
    and times: "t_localtime T t = Some text \<Longrightarrow> length text < 128 \<and> NUL \<notin> set text"
    and stack: "length (t_stack T k n) = n"
begin

lemma uuid_arg_ok [simp]: "uuid_arg T k u = Inr (t_uuid_unparse T u)"
proof -
  obtain buf' where "c_sprintf (t_stack T k SWIM_UUID_STR_LEN) 0 (t_uuid_unparse T u) = Inr buf'"
    "c_string buf' = Inr (t_uuid_unparse T u)"
    by (rule c_sprintf_string [of "t_uuid_unparse T u" "t_stack T k SWIM_UUID_STR_LEN"]) (auto simp: unparse stack)
  then show ?thesis by (simp add: uuid_arg_def swim_uuid_str_r_def c_arg_def)
qed

text \<open>Host and service together always fit: an address is never cut off.\<close>

lemma addr_ptr_ok:
  assumes "0 < addrlen" "t_getnameinfo T NI_NUMERICSERV (take addrlen addr) = Some (host, service)"
  obtains buf' where "addr_ptr T k addr addrlen = Inr (Some buf')" "c_string buf' = Inr (host @ '':'' @ service)"
proof -
  have h: "length (host @ '':'' @ service) < ADDR_STR_LEN" "NUL \<notin> set (host @ '':'' @ service)"
    using names [OF assms(2)] by auto
  obtain buf' where "c_snprintf (t_stack T k ADDR_STR_LEN) ADDR_STR_LEN (host @ '':'' @ service) = Inr buf'"
    "c_string buf' = Inr (take (ADDR_STR_LEN - 1) (host @ '':'' @ service))"
    by (rule c_snprintf_string [OF h(2), of ADDR_STR_LEN "t_stack T k ADDR_STR_LEN"]) (auto simp: stack)
  then show thesis using that assms h(1) by (simp add: addr_ptr_def swim_addr_str_r_def)
qed

lemma time_ok:
  assumes "t_localtime T t = Some text"
  shows "time_arg T k t = Inr text"
proof -
  obtain buf' where "c_sprintf (t_stack T k 128) 0 text = Inr buf'" "c_string buf' = Inr text"
    by (rule c_sprintf_string [of "text" "t_stack T k 128"]) (use times [OF assms] in \<open>auto simp: stack\<close>)
  then show ?thesis using assms times [OF assms] by (simp add: time_arg_def time_as_string_def c_strftime_def c_arg_def)
qed

end

section \<open>What is printed\<close>

text \<open>The text of an event, in full.\<close>

definition event_text :: "Text \<Rightarrow> Event \<Rightarrow> string" where
  "event_text T ev =
     (let u = t_uuid_unparse T (ev_uuid ev) in
      case h_type (hdr ev) of
        EVENT_TYPE_PING \<Rightarrow> ''PING''
      | EVENT_TYPE_ACK \<Rightarrow> ''ACK('' @ u @ '')''
      | EVENT_TYPE_PING_REQ \<Rightarrow> ''PING_REQ('' @ u @ '')''
      | EVENT_TYPE_LEAVE \<Rightarrow> ''LEAVE('' @ u @ '')''
      | EVENT_TYPE_JOIN \<Rightarrow>
          if join_addrlen ev = 0 then ''JOIN('' @ u @ '')''
          else (case t_getnameinfo T NI_NUMERICSERV (take (join_addrlen ev) (join_addr ev)) of
             None \<Rightarrow> [] | Some (host, service) \<Rightarrow> ''JOIN('' @ u @ '', '' @ host @ '':'' @ service @ '')'')
      | EVENT_TYPE_OTHER _ \<Rightarrow> [])"

text \<open>An event whose address, if it has one, can be named.\<close>

definition nameable :: "Text \<Rightarrow> Event \<Rightarrow> bool" where
  "nameable T ev \<longleftrightarrow> (h_type (hdr ev) = EVENT_TYPE_JOIN \<longrightarrow> 0 < join_addrlen ev \<longrightarrow>
     t_getnameinfo T NI_NUMERICSERV (take (join_addrlen ev) (join_addr ev)) \<noteq> None)"

context text_env
begin

lemma event_text_nul: "NUL \<notin> set (event_text T ev)"
  using unparse by (auto simp: event_text_def Let_def split: EventType.splits option.splits dest!: sym [THEN names])

lemma event_text_length: "h_type (hdr ev) \<noteq> EVENT_TYPE_JOIN \<Longrightarrow> length (event_text T ev) \<le> 46"
  using unparse by (auto simp: event_text_def Let_def split: EventType.splits)

lemma event_print_snprintf:
  assumes "known_type (h_type (hdr ev))" "nameable T ev"
  shows "swim_event_print T ev buf = c_snprintf buf 128 (event_text T ev)"
proof (cases "h_type (hdr ev) = EVENT_TYPE_JOIN \<and> 0 < join_addrlen ev")
  case False
  then show ?thesis
    using assms(1)
    by (cases "h_type (hdr ev)")
      (simp_all add: swim_event_print_def swim_event_def event_text_def known_type_def swim_print_ping_def swim_print_ack_def
        swim_print_ping_req_def swim_print_join_def swim_print_leave_def)
next
  case True
  then obtain host service where a: "t_getnameinfo T NI_NUMERICSERV (take (join_addrlen ev) (join_addr ev)) = Some (host, service)"
    using assms(2) by (auto simp: nameable_def)
  obtain b where "addr_ptr T 0 (join_addr ev) (join_addrlen ev) = Inr (Some b)" "c_string b = Inr (host @ '':'' @ service)"
    using addr_ptr_ok [OF _ a] True by blast
  then show ?thesis
    using True a by (simp add: swim_event_print_def swim_event_def event_text_def swim_print_join_def c_arg_def)
qed

end

text \<open>The words before the identifier in \<open>swim_event_string\<close>.\<close>

fun event_prefix :: "EventType \<Rightarrow> string" where
  "event_prefix EVENT_TYPE_PING = ''ping from ''"
| "event_prefix EVENT_TYPE_ACK = ''ack from ''"
| "event_prefix EVENT_TYPE_JOIN = ''join from ''"
| "event_prefix EVENT_TYPE_LEAVE = ''leave from ''"
| "event_prefix _ = []"

text \<open>A row of the printout, in full.\<close>

definition row_text :: "Text \<Rightarrow> NodeState \<Rightarrow> string" where
  "row_text T nd =
     (let u = t_uuid_unparse T (node_uuid nd);
          t = the (t_localtime T (n_last_seen (info nd)));
          st = projr (swim_status_name (node_status nd));
          name = (\<lambda>a. case t_getnameinfo T NI_NUMERICSERV a of Some (host, service) \<Rightarrow> host @ '':'' @ service | None \<Rightarrow> []);
          wi = (if w_addrlen nd = 0 then [] else name (take (w_addrlen nd) (w_addr nd))) in
      if t_getnameinfo T NI_NUMERICSERV (take (n_addrlen (info nd)) (n_addr (info nd))) = None
      then pad 40 u @ '' '' @ pad 20 t @ '' '' @ pad 10 st @ newline
      else pad 40 u @ '' '' @ pad 26 t @ '' '' @ pad 10 st @ '' '' @
             pad ADDR_WIDTH (name (take (n_addrlen (info nd)) (n_addr (info nd)))) @ '' '' @ pad ADDR_WIDTH wi @ newline)"

text \<open>A node that can be printed: it has an address and one of the four statuses, its time can be shown, and so can its
  witness, if it has one.\<close>

definition named_status :: "Status \<Rightarrow> bool" where
  "named_status st \<longleftrightarrow> st \<in> {SWIM_STATUS_UNKNOWN, SWIM_STATUS_ALIVE, SWIM_STATUS_SUSPECT, SWIM_STATUS_DEAD}"

definition printable :: "Text \<Rightarrow> NodeState \<Rightarrow> bool" where
  "printable T nd \<longleftrightarrow> 0 < n_addrlen (info nd) \<and> named_status (node_status nd) \<and>
     t_localtime T (n_last_seen (info nd)) \<noteq> None \<and>
     (0 < w_addrlen nd \<longrightarrow> t_getnameinfo T NI_NUMERICSERV (take (w_addrlen nd) (w_addr nd)) \<noteq> None)"

lemma named_status_name: "named_status st \<longleftrightarrow> (\<exists>n. swim_status_name st = Inr n)"
  by (cases st) (auto simp: named_status_def swim_status_name_def)

lemma print_row_bad_status: "\<not> named_status (node_status nd) \<Longrightarrow> \<exists>e. print_row T k nd = Inl e"
proof -
  assume "\<not> named_status (node_status nd)"
  then have st: "swim_status_name (node_status nd) = Inl OutOfBounds"
    by (cases "node_status nd") (auto simp: named_status_def swim_status_name_def)
  have "wp (\<lambda>_. True) (print_row T k nd) (\<lambda>_. False)"
    by (simp add: print_row_def st wp_def split: sum.split option.split)
  then show ?thesis by (cases "print_row T k nd") auto
qed

lemma for_loop_fails:
  assumes "k \<in> set ks" "\<And>t. \<exists>e. body k t = Inl e"
  shows "\<exists>e. for_loop body ks t = Inl e"
  using assms(1)
proof (induction ks arbitrary: t)
  case (Cons j ks)
  show ?case
  proof (cases "body j t")
    case (Inr t')
    then have "k \<in> set ks" using Cons.prems assms(2) [of t] by auto
    then show ?thesis using Cons.IH [of t'] Inr by simp
  qed simp
qed simp

context text_env
begin

lemma witness_ptr_ok:
  assumes "printable T nd"
  obtains p where "witness_ptr T k nd = Inr p"
    "c_arg p = Inr (if w_addrlen nd = 0 then []
       else case t_getnameinfo T NI_NUMERICSERV (take (w_addrlen nd) (w_addr nd)) of Some (host, service) \<Rightarrow> host @ '':'' @ service | None \<Rightarrow> [])"
proof (cases "w_addrlen nd = 0")
  case True
  then show ?thesis using that by (simp add: witness_ptr_def c_arg_def c_string_def)
next
  case False
  then obtain host service where a: "t_getnameinfo T NI_NUMERICSERV (take (w_addrlen nd) (w_addr nd)) = Some (host, service)"
    using assms by (auto simp: printable_def)
  then obtain b where "addr_ptr T k (w_addr nd) (w_addrlen nd) = Inr (Some b)" "c_string b = Inr (host @ '':'' @ service)"
    using addr_ptr_ok [OF _ a] False by blast
  then show ?thesis using that [of "Some b"] a False by (simp add: witness_ptr_def c_arg_def)
qed

lemma print_row_ok:
  assumes p: "printable T nd"
  shows "print_row T k nd = Inr (row_text T nd)"
proof -
  obtain t where t: "t_localtime T (n_last_seen (info nd)) = Some t" using p by (auto simp: printable_def)
  obtain st where st: "swim_status_name (node_status nd) = Inr st" using p by (auto simp: printable_def named_status_name)
  obtain wp where wi: "witness_ptr T (2 * k + 1) nd = Inr wp"
    "c_arg wp = Inr (if w_addrlen nd = 0 then []
       else case t_getnameinfo T NI_NUMERICSERV (take (w_addrlen nd) (w_addr nd)) of Some (host, service) \<Rightarrow> host @ '':'' @ service | None \<Rightarrow> [])"
    using witness_ptr_ok [OF p] by blast
  have al: "0 < n_addrlen (info nd)" using p by (simp add: printable_def)
  show ?thesis
  proof (cases "t_getnameinfo T NI_NUMERICSERV (take (n_addrlen (info nd)) (n_addr (info nd)))")
    case None
    then have "addr_ptr T (2 * k) (n_addr (info nd)) (n_addrlen (info nd)) = Inr None"
      using al by (simp add: addr_ptr_def swim_addr_str_r_def)
    then show ?thesis using None t st time_ok [OF t, of k] by (simp add: print_row_def row_text_def)
  next
    case (Some hs)
    obtain host service where a: "t_getnameinfo T NI_NUMERICSERV (take (n_addrlen (info nd)) (n_addr (info nd))) = Some (host, service)"
      using Some by (cases hs) simp
    obtain b where "addr_ptr T (2 * k) (n_addr (info nd)) (n_addrlen (info nd)) = Inr (Some b)" "c_string b = Inr (host @ '':'' @ service)"
      using addr_ptr_ok [OF al a] by blast
    then show ?thesis using a t st wi time_ok [OF t, of k] by (simp add: print_row_def row_text_def Let_def)
  qed
qed

lemma print_loop_ok:
  assumes "view_size s \<le> length (view s)" "\<forall>nd \<in> set (nodes s). printable T nd"
  shows "for_loop (print_node T s) [0..<view_size s] out = Inr (out @ concat (map (row_text T) (nodes s)))"
proof -
  have "wp (\<lambda>_. False) (for_loop (print_node T s) [0..<view_size s] out)
     (\<lambda>o'. o' = out @ concat (map (row_text T) (take (view_size s) (view s))))"
  proof (rule wp_for_upt [where I = "\<lambda>k o'. o' = out @ concat (map (row_text T) (take k (view s)))"])
    fix k o' assume k: "k < view_size s" and o': "o' = out @ concat (map (row_text T) (take k (view s)))"
    have kl: "k < length (view s)" using k assms(1) by simp
    then have "view s ! k \<in> set (nodes s)" using k by (metis in_set_conv_nth length_take min_less_iff_conj nth_take)
    then have "printable T (view s ! k)" using assms(2) by blast
    then show "wp (\<lambda>_. False) (print_node T s k o') (\<lambda>o'. o' = out @ concat (map (row_text T) (take (Suc k) (view s))))"
      using kl o' by (simp add: print_node_def print_row_ok take_Suc_conv_app_nth)
  qed simp
  then show ?thesis by (cases "for_loop (print_node T s) [0..<view_size s] out") auto
qed

lemma swim_state_print_ok:
  assumes "print_callback pr = None" "view_size s \<le> length (view s)" "\<forall>nd \<in> set (nodes s). printable T nd"
  shows "swim_state_print T s pr = Inr (pr\<lparr>print_stderr := print_stderr pr @ ''UUID: '' @ t_uuid_unparse T (s_uuid s) @ newline @
           print_header @ concat (map (row_text T) (nodes s))\<rparr>)"
  using assms(1) print_loop_ok [OF assms(2,3)] by (simp add: swim_state_print_def)

end

section \<open>An environment\<close>

text \<open>Identifiers as 32 hexadecimal digits in groups; one name for every address; one time of day; local arrays that hold
  null characters.\<close>

definition hex_digit :: "nat \<Rightarrow> char" where
  "hex_digit n = ''0123456789abcdef'' ! (n mod 16)"

definition uuid_text :: "uuid \<Rightarrow> string" where
  "uuid_text u =
     (let d = map (\<lambda>i. hex_digit (unat u div 16 ^ (31 - i))) [0..<32] in
      take 8 d @ ''-'' @ take 4 (drop 8 d) @ ''-'' @ take 4 (drop 12 d) @ ''-'' @ take 4 (drop 16 d) @ ''-'' @ drop 20 d)"

definition calm_text :: Text where
  "calm_text =
     \<lparr>t_uuid_unparse = uuid_text, t_getnameinfo = (\<lambda>_ _. Some (''localhost'', ''7946'')),
      t_localtime = (\<lambda>_. Some ''2026-01-01 00:00:00''), t_clock = (\<lambda>_. ''Thu Jan  1 00:00:00 2026''),
      t_stack = (\<lambda>_ n. replicate n NUL)\<rparr>"

lemma hex_digit_nul: "hex_digit n \<noteq> NUL"
proof -
  have "n mod 16 < length ''0123456789abcdef''" by simp
  then have "hex_digit n \<in> set ''0123456789abcdef''" unfolding hex_digit_def by (rule nth_mem)
  then show ?thesis by auto
qed

lemma uuid_text_ok: "length (uuid_text u) = 36" "NUL \<notin> set (uuid_text u)"
  using hex_digit_nul by (auto simp: uuid_text_def Let_def simp del: upt_conv_Cons dest!: in_set_takeD in_set_dropD) metis+

interpretation calm_text: text_env calm_text
  by unfold_locales (auto simp: calm_text_def uuid_text_ok)

section \<open>Properties\<close>

text \<open>C31: Printing an event of a known type, whose address can be named, never writes outside the 128 characters of the
  static array: it leaves there the text of the event, ended by a null character, and cuts it off only if it is a join
  event with a long host name.\<close>

theorem event_print_exact:
  assumes "text_env T" "known_type (h_type (hdr ev))" "nameable T ev" "length buf = 128"
  shows "\<exists>buf'. swim_event_print T ev buf = Inr buf' \<and> length buf' = 128 \<and> c_string buf' = Inr (take 127 (event_text T ev)) \<and>
           (h_type (hdr ev) \<noteq> EVENT_TYPE_JOIN \<longrightarrow> c_string buf' = Inr (event_text T ev))"
proof -
  obtain buf' where "c_snprintf buf 128 (event_text T ev) = Inr buf'" "length buf' = length buf"
    "c_string buf' = Inr (take (128 - 1) (event_text T ev))"
    by (rule c_snprintf_string [OF text_env.event_text_nul [OF assms(1)], of 128 buf]) (use assms(4) in simp_all)
  then show ?thesis
    using text_env.event_print_snprintf [OF assms(1-3)] text_env.event_text_length [OF assms(1), of ev] assms(4) by auto
qed

theorem event_print_exact_witness:
  "\<exists>buf'. swim_event_print calm_text (sample_event EVENT_TYPE_LEAVE) (replicate 128 NUL) = Inr buf' \<and>
     c_string buf' = Inr (''LEAVE('' @ uuid_text 5 @ '')'')"
  using event_print_exact [OF calm_text.text_env_axioms, of "sample_event EVENT_TYPE_LEAVE" "replicate 128 NUL"]
  by (auto simp: nameable_def event_text_def calm_text_def)

text \<open>C32: The unbounded \<open>sprintf\<close> of \<open>swim_event_string\<close> stays inside the caller's array exactly when the array has room
  for the prefix, the 36 characters of the identifier and the null character; 48 characters are always enough, and a
  ping request is not printed at all.\<close>

theorem event_string_bound:
  assumes "text_env T" "length buf = n"
    and "h_type (hdr ev) \<in> {EVENT_TYPE_PING, EVENT_TYPE_ACK, EVENT_TYPE_JOIN, EVENT_TYPE_LEAVE}"
  shows "if length (event_prefix (h_type (hdr ev))) + 37 \<le> n
         then \<exists>buf'. swim_event_string T ev buf n = Inr (True, buf') \<and>
                c_string buf' = Inr (event_prefix (h_type (hdr ev)) @ t_uuid_unparse T (h_uuid (hdr ev)))
         else swim_event_string T ev buf n = Inl MemOverflow"
proof -
  let ?p = "event_prefix (h_type (hdr ev))" and ?u = "t_uuid_unparse T (h_uuid (hdr ev))"
  have u: "length ?u = 36" "NUL \<notin> set ?u" using text_env.unparse [OF assms(1)] by auto
  have p: "NUL \<notin> set ?p" by (cases "h_type (hdr ev)") auto
  have run: "swim_event_string T ev buf n =
     rbind (c_sprintf (replicate n NUL) 0 ?p) (\<lambda>buf. rbind (c_sprintf buf (length ?p) ?u) (\<lambda>buf. Inr (True, buf)))"
    using assms(2,3) by (auto simp: swim_event_string_def Let_def)
  show ?thesis
  proof (cases "length ?p + 37 \<le> n")
    case True
    then have "swim_event_string T ev buf n = Inr (True, ?p @ ?u @ NUL # replicate (n - (length ?p + 37)) NUL)"
      using u(1) by (simp add: run c_sprintf_def Let_def)
    then show ?thesis
      using True p u(2) by (auto simp: c_string_def takeWhile_append)
  next
    case False
    then show ?thesis
      using u(1) by (cases "Suc (length ?p) \<le> n") (simp_all add: run c_sprintf_def Let_def)
  qed
qed

theorem event_string_bound_witness:
  "(\<exists>buf'. swim_event_string calm_text (sample_event EVENT_TYPE_PING) (replicate 47 NUL) 47 = Inr (True, buf') \<and>
      c_string buf' = Inr (''ping from '' @ uuid_text 9)) \<and>
   swim_event_string calm_text (sample_event EVENT_TYPE_PING) (replicate 46 NUL) 46 = Inl MemOverflow"
  using event_string_bound [OF calm_text.text_env_axioms, of "replicate 47 NUL" 47 "sample_event EVENT_TYPE_PING"]
    event_string_bound [OF calm_text.text_env_axioms, of "replicate 46 NUL" 46 "sample_event EVENT_TYPE_PING"]
  by (simp add: calm_text_def)

text \<open>C30: Without a callback, the printout of a state whose nodes can all be printed consists of the server's identifier,
  the header, and one row for each node in the order of the view, appended to what was written before.\<close>

theorem state_print_exact:
  assumes "text_env T" "print_callback pr = None" "view_size s \<le> length (view s)" "\<forall>nd \<in> set (nodes s). printable T nd"
  shows "swim_state_print T s pr = Inr (pr\<lparr>print_stderr := print_stderr pr @ ''UUID: '' @ t_uuid_unparse T (s_uuid s) @ newline @
           print_header @ concat (map (row_text T) (nodes s))\<rparr>)"
  using text_env.swim_state_print_ok [OF assms] .

theorem state_print_exact_witness:
  "\<exists>nd pr'. node_uuid nd = 2 \<and> swim_state_print calm_text (sample_swim\<lparr>view_size := 1, view := [nd]\<rparr>)
       \<lparr>print_callback = None, print_callback_userdata = (), print_stderr = []\<rparr> = Inr pr' \<and>
     print_stderr pr' = ''UUID: '' @ uuid_text 7 @ newline @ print_header @ row_text calm_text nd"
proof -
  let ?nd = "(sample_node 2 SWIM_STATUS_ALIVE 990)\<lparr>info := (info (sample_node 2 SWIM_STATUS_ALIVE 990))\<lparr>n_addrlen := 16\<rparr>\<rparr>"
  let ?pr = "\<lparr>print_callback = None, print_callback_userdata = (), print_stderr = []\<rparr>"
  have p: "printable calm_text ?nd"
    by (simp add: printable_def named_status_def calm_text_def sample_node_def zero_node_def zero_info_def)
  show ?thesis
    using state_print_exact [OF calm_text.text_env_axioms, of ?pr "sample_swim\<lparr>view_size := 1, view := [?nd]\<rparr>"] p
    by (intro exI [of _ ?nd]) (simp add: calm_text_def)
qed

end
