(* ===== verification/Swim_Server.thy ===== *)
theory Swim_Server
  imports Swim_Handlers Swim_Text
begin

text \<open>
  The server: the loop of \<open>swim/server.c\<close> and the thread around it, \<open>swim/server_pthread.c\<close>.

  \<open>Loop\<close> holds the state of the server and the local variables of \<open>swim_server_loop\<close> that live across
  iterations: the buffer the event is decoded into, the sender's address, and the time of the last printout.

  A process (\<open>Proc\<close>) is the server, the structure behind \<open>swim->server\<close>, what the system keeps for the socket, and the place
  the thread has come to. The thread and the main program, which may stop the server at any time, interleave: \<open>proc_step\<close>.
  The thread reads the flag \<open>stopped\<close> only where the loop tests it, so a stop that comes later takes effect at the next test.
  \<open>recvfrom\<close> blocks: a step of the thread inside the call is one second of waiting, and the call returns when something has
  arrived, when it fails, or when the timeout of the socket has passed. A thread that has died remembers where and how.
\<close>

section \<open>Data\<close>

record SwimAddress =
  sa_addr :: "byte list"
  sa_addrlen :: nat

record PThreadServerState =
  stopped :: bool
  address :: SwimAddress

record 'u Loop =
  l_world :: World
  l_event :: Event
  l_addr :: "byte list"
  last_printout :: time_t
  l_printer :: "'u Printer"

text \<open>What the system does in one step: the answer \<open>recvfrom\<close> has for a caller, or \<open>None\<close> if it has none yet, and what the
  receive buffer on the stack held before.\<close>

record Input =
  in_recv :: "Recv option"
  in_stack :: "byte list"

text \<open>The places of the thread. \<open>AtRecv n\<close> is inside \<open>recvfrom\<close>, after \<open>n\<close> seconds; \<open>AtProcess bytes addrlen\<close> is after it, with
  the local variables of the iteration.\<close>

datatype Place = AtBegin | AtTest | AtRecv nat | AtProcess int nat | AtHeartbeat | AtPrintout

datatype Thread = NotStarted | Running Place | Returned | Died Place cerr

record 'u Proc =
  pc_loop :: "'u Loop"
  pc_server :: "PThreadServerState option"
  pc_rcvtimeo :: nat
  pc_thread :: Thread

section \<open>Operations: \<open>swim/server.c\<close>\<close>

text \<open>The parts of an iteration.\<close>

definition server_recv :: "Recv \<Rightarrow> byte list \<Rightarrow> 'u Loop \<Rightarrow> (int \<times> nat \<times> 'u Loop) result" where
  "server_recv rcv stack l =
     rbind (swim_recv_event rcv stack (l_event l) (l_addr l) SIZEOF_STORAGE) (\<lambda>(bytes, ev, addr, addrlen).
     Inr (bytes, addrlen, l\<lparr>l_event := ev, l_addr := addr\<rparr>))"

definition server_process :: "Ext \<Rightarrow> int \<Rightarrow> nat \<Rightarrow> 'u Loop \<Rightarrow> 'u Loop result" where
  "server_process E bytes addrlen l =
     (if 0 < bytes then
        rbind (swim_process_event E (l_event l) (l_addr l) addrlen (l_world l)) (\<lambda>w. Inr (l\<lparr>l_world := w\<rparr>))
      else Inr l)"

definition server_heartbeat :: "Ext \<Rightarrow> 'u Loop \<Rightarrow> 'u Loop result" where
  "server_heartbeat E l = rbind (swim_cluster_heartbeat E (l_world l)) (\<lambda>w. Inr (l\<lparr>l_world := w\<rparr>))"

definition server_printout :: "Ext \<Rightarrow> Text \<Rightarrow> 'u Loop \<Rightarrow> 'u Loop result" where
  "server_printout E T l =
     (let (next_printout, w) = c_time E (l_world l);
          l = l\<lparr>l_world := w\<rparr>
      in if last_printout l + 5 < next_printout then
           rbind (swim_state_print T (w_swim w) (l_printer l)) (\<lambda>pr.
           Inr (l\<lparr>l_printer := pr, last_printout := next_printout\<rparr>))
         else Inr l)"

definition swim_server_iter :: "Ext \<Rightarrow> Text \<Rightarrow> Recv \<Rightarrow> byte list \<Rightarrow> 'u Loop \<Rightarrow> 'u Loop result" where
  "swim_server_iter E T rcv stack l =
     rbind (server_recv rcv stack l) (\<lambda>(bytes, addrlen, l).
     rbind (server_process E bytes addrlen l) (\<lambda>l.
     rbind (server_heartbeat E l) (server_printout E T)))"

text \<open>The loop as a whole, for a given sequence of the values it finds in the flag, each with what \<open>recvfrom\<close> returns and the
  buffer holds if the loop goes on; it returns at the first value that says stopped, and \<open>None\<close> says that it is still
  running at the end of the list.\<close>

primrec swim_server_loop :: "Ext \<Rightarrow> Text \<Rightarrow> (bool \<times> Recv \<times> byte list) list \<Rightarrow> 'u Loop \<Rightarrow> ('u Loop option \<times> 'u Loop) result" where
  "swim_server_loop E T [] l = Inr (None, l)"
| "swim_server_loop E T (fi # inputs) l =
     (if fst fi then Inr (Some l, l)
      else rbind (swim_server_iter E T (fst (snd fi)) (snd (snd fi)) l) (swim_server_loop E T inputs))"

section \<open>Operations: \<open>swim/server_pthread.c\<close>\<close>

definition swim_server_init :: "Ext \<Rightarrow> SwimAddress \<Rightarrow> 16 word \<Rightarrow> 'u Proc \<Rightarrow> 'u Proc" where
  "swim_server_init E addr port p =
     (let (ok, w) = c_alloc E (l_world (pc_loop p)) in
      if \<not> ok then p\<lparr>pc_loop := (pc_loop p)\<lparr>l_world := w\<rparr>\<rparr>
      else
        let state = \<lparr>stopped = False, address = addr\<rparr>;
            (_, timeout, w) = swim_state_init E port w
        in p\<lparr>pc_loop := (pc_loop p)\<lparr>l_world := w\<rparr>, pc_server := Some state, pc_rcvtimeo := timeout\<rparr>)"

text \<open>\<open>failure\<close> is the error message if \<open>pthread_create\<close> fails.\<close>

definition swim_server_start :: "string option \<Rightarrow> 'u Proc \<Rightarrow> (string option \<times> 'u Proc) result" where
  "swim_server_start failure p =
     (case pc_server p of
        None \<Rightarrow> Inl NullDeref
      | Some state \<Rightarrow> (case failure of Some msg \<Rightarrow> Inr (Some msg, p) | None \<Rightarrow> Inr (None, p\<lparr>pc_thread := Running AtBegin\<rparr>)))"

definition swim_server_stop :: "'u Proc \<Rightarrow> 'u Proc result" where
  "swim_server_stop p =
     (case pc_server p of
        None \<Rightarrow> Inl NullDeref
      | Some state \<Rightarrow> Inr (p\<lparr>pc_server := Some (state\<lparr>stopped := True\<rparr>)\<rparr>))"

text \<open>Waiting returns when the thread has returned; \<open>None\<close> is a wait that still blocks. To wait for a thread that was never
  created is undefined in C; \<open>NullDeref\<close> stands for that.\<close>

definition swim_server_wait :: "'u Proc \<Rightarrow> 'u Proc option result" where
  "swim_server_wait p =
     (case pc_server p of
        None \<Rightarrow> Inl NullDeref
      | Some state \<Rightarrow>
          (case pc_thread p of
             NotStarted \<Rightarrow> Inl NullDeref
           | Returned \<Rightarrow> Inr (Some p)
           | _ \<Rightarrow> Inr None))"

definition swim_server_running :: "'u Proc \<Rightarrow> bool result" where
  "swim_server_running p =
     (case pc_server p of None \<Rightarrow> Inl NullDeref | Some state \<Rightarrow> Inr (\<not> stopped state))"

text \<open>What the thread does before the loop.\<close>

definition pthread_server_begin :: "Ext \<Rightarrow> 'u Proc \<Rightarrow> 'u Loop result" where
  "pthread_server_begin E p =
     (case pc_server p of
        None \<Rightarrow> Inl NullDeref
      | Some state \<Rightarrow>
          if 0 < sa_addrlen (address state) then
            rbind (swim_cluster_join E (sa_addr (address state)) (sa_addrlen (address state)) (l_world (pc_loop p))) (\<lambda>w.
            Inr ((pc_loop p)\<lparr>l_world := w\<rparr>))
          else Inr (pc_loop p))"

text \<open>\<open>recvfrom\<close> on a socket with a timeout (zero: none) after some seconds of waiting: its answer, or \<open>None\<close> if it blocks.\<close>

definition c_recvfrom :: "nat \<Rightarrow> nat \<Rightarrow> Recv option \<Rightarrow> Recv option" where
  "c_recvfrom timeout waited arrival =
     (case arrival of
        Some rcv \<Rightarrow> Some rcv
      | None \<Rightarrow> if 0 < timeout \<and> timeout \<le> waited then Some RecvNothing else None)"

text \<open>One step of the thread, from the place it is at.\<close>

primrec place_step :: "Ext \<Rightarrow> Text \<Rightarrow> Input \<Rightarrow> 'u Proc \<Rightarrow> Place \<Rightarrow> ('u Loop \<times> Thread) result" where
  "place_step E T inp p AtBegin = rbind (pthread_server_begin E p) (\<lambda>l. Inr (l, Running AtTest))"
| "place_step E T inp p AtTest =
     rbind (swim_server_running p) (\<lambda>go. Inr (pc_loop p, if go then Running (AtRecv 0) else Returned))"
| "place_step E T inp p (AtRecv waited) =
     (case c_recvfrom (pc_rcvtimeo p) waited (in_recv inp) of
        None \<Rightarrow> Inr (pc_loop p, Running (AtRecv (Suc waited)))
      | Some rcv \<Rightarrow> rbind (server_recv rcv (in_stack inp) (pc_loop p)) (\<lambda>(bytes, addrlen, l).
          Inr (l, Running (AtProcess bytes addrlen))))"
| "place_step E T inp p (AtProcess bytes addrlen) =
     rbind (server_process E bytes addrlen (pc_loop p)) (\<lambda>l. Inr (l, Running AtHeartbeat))"
| "place_step E T inp p AtHeartbeat = rbind (server_heartbeat E (pc_loop p)) (\<lambda>l. Inr (l, Running AtPrintout))"
| "place_step E T inp p AtPrintout = rbind (server_printout E T (pc_loop p)) (\<lambda>l. Inr (l, Running AtTest))"

definition pthread_server_step :: "Ext \<Rightarrow> Text \<Rightarrow> Input \<Rightarrow> 'u Proc \<Rightarrow> 'u Proc" where
  "pthread_server_step E T inp p =
     (case pc_thread p of
        Running here \<Rightarrow>
          (case place_step E T inp p here of
             Inl e \<Rightarrow> p\<lparr>pc_thread := Died here e\<rparr>
           | Inr (l, there) \<Rightarrow> p\<lparr>pc_loop := l, pc_thread := there\<rparr>)
      | _ \<Rightarrow> p)"

text \<open>What the network may deliver: the receive buffer has its size, and an address fits its object.\<close>

definition admissible :: "Input \<Rightarrow> bool" where
  "admissible inp \<longleftrightarrow> length (in_stack inp) = SWIM_MAX_PACKET_SIZE \<and>
     (case in_recv inp of Some (RecvDatagram bytes from) \<Rightarrow> length from \<le> SIZEOF_STORAGE | _ \<Rightarrow> True)"

inductive proc_step :: "Ext \<Rightarrow> Text \<Rightarrow> 'u Proc \<Rightarrow> 'u Proc \<Rightarrow> bool" for E T where
  thread: "admissible inp \<Longrightarrow> proc_step E T p (pthread_server_step E T inp p)"
| stop: "swim_server_stop p = Inr p' \<Longrightarrow> proc_step E T p p'"

inductive reachable :: "Ext \<Rightarrow> Text \<Rightarrow> 'u Proc \<Rightarrow> 'u Proc \<Rightarrow> bool" for E T p where
  start: "reachable E T p p"
| step: "reachable E T p q \<Longrightarrow> proc_step E T q r \<Longrightarrow> reachable E T p r"

inductive_cases proc_stepE: "proc_step E T p q"

text \<open>The steps of the thread after the test are an iteration of the loop.\<close>

lemma iter_steps:
  assumes "pc_thread p = Running (AtRecv n)" "in_recv i = Some rcv" "swim_server_iter E T rcv (in_stack i) (pc_loop p) = Inr l"
  shows "fold (pthread_server_step E T) [i, i1, i2, i3] p = p\<lparr>pc_loop := l, pc_thread := Running AtTest\<rparr>"
  using assms by (auto simp: pthread_server_step_def swim_server_iter_def c_recvfrom_def)

section \<open>Invariants of the thread\<close>

definition loop_inv :: "Ext \<Rightarrow> uuid \<Rightarrow> 'u Loop \<Rightarrow> bool" where
  "loop_inv E u l \<longleftrightarrow> wf_swim E (w_swim (l_world l)) \<and> s_uuid (w_swim (l_world l)) = u \<and>
     event_slot 11 (l_event l) \<and> length (l_addr l) = SIZEOF_STORAGE"

text \<open>What is known at a place: after receiving, an event that was accepted is well formed.\<close>

definition place_inv :: "'u Loop \<Rightarrow> Thread \<Rightarrow> bool" where
  "place_inv l t \<longleftrightarrow> (\<forall>bytes addrlen. t = Running (AtProcess bytes addrlen) \<longrightarrow> addrlen \<le> SIZEOF_STORAGE \<and>
     (0 < bytes \<longrightarrow> wf_event (l_event l) \<and> known_type (h_type (hdr (l_event l))) \<and> gossip_count (l_event l) \<le> 11))"

text \<open>Where and how the thread may die while memory is available.\<close>

definition may_die :: "Text \<Rightarrow> 'u Loop \<Rightarrow> Place \<Rightarrow> cerr \<Rightarrow> bool" where
  "may_die T l here e \<longleftrightarrow>
     (case here of
        AtRecv _ \<Rightarrow> e = AssertFailed \<or> e = MemOverflow
      | AtProcess _ _ \<Rightarrow> e = AssertFailed \<or> e = ExitFailure \<or> e = SignedOverflow \<and> 2 ^ 30 \<le> view_size (w_swim (l_world l)) + 12
      | AtPrintout \<Rightarrow> swim_state_print T (w_swim (l_world l)) (l_printer l) = Inl e
      | _ \<Rightarrow> False)"

definition proc_inv :: "Ext \<Rightarrow> Text \<Rightarrow> uuid \<Rightarrow> 'u Proc \<Rightarrow> bool" where
  "proc_inv E T u p \<longleftrightarrow> loop_inv E u (pc_loop p) \<and> pc_server p \<noteq> None \<and> place_inv (pc_loop p) (pc_thread p) \<and>
     (\<forall>here e. pc_thread p = Died here e \<longrightarrow> may_die T (pc_loop p) here e)"

lemma place_inv_other [simp]:
  "place_inv l NotStarted" "place_inv l Returned" "place_inv l (Died here e)" "place_inv l (Running AtBegin)"
  "place_inv l (Running AtTest)" "place_inv l (Running (AtRecv n))" "place_inv l (Running AtHeartbeat)" "place_inv l (Running AtPrintout)"
  by (simp_all add: place_inv_def)

lemma wp_server_recv:
  assumes "loop_inv E u l" "length stack = SWIM_MAX_PACKET_SIZE"
    and "\<And>bytes src. rcv = RecvDatagram bytes src \<Longrightarrow> length src \<le> SIZEOF_STORAGE"
  shows "wp (\<lambda>e. e = AssertFailed \<or> e = MemOverflow) (server_recv rcv stack l) (\<lambda>(bytes, addrlen, l').
           loop_inv E u l' \<and> place_inv l' (Running (AtProcess bytes addrlen)))"
proof (cases rcv)
  case RecvNothing
  then show ?thesis using assms(1) by (simp add: server_recv_def swim_recv_event_def place_inv_def loop_inv_def)
next
  case (RecvDatagram bytes src)
  let ?n = "min (length bytes) SWIM_MAX_PACKET_SIZE"
  let ?buf = "take ?n bytes @ drop ?n stack"
  have len: "length ?buf = 2048" "length src \<le> SIZEOF_STORAGE" using assms(2,3) RecvDatagram by auto
  have slot: "event_slot 11 (l_event l)" using assms(1) by (simp add: loop_inv_def)
  have "wp (\<lambda>e. e = AssertFailed \<or> e = MemOverflow) (swim_decode_event (l_event l) ?buf) (\<lambda>(ev', r). event_slot 11 ev' \<and>
           (\<forall>n. r = Some n \<longrightarrow> wf_event ev' \<and> known_type (h_type (hdr ev')) \<and> gossip_count ev' \<le> 11))"
    by (rule wp_mono [OF wp_swim_decode_event [OF slot len(1)]]) auto
  then show ?thesis
    using assms(1) len(2) RecvDatagram
    by (auto simp: server_recv_def swim_recv_event_def Let_def loop_inv_def place_inv_def split: option.split elim!: wp_mono)
qed

context swim_env
begin

lemma wp_server_process:
  assumes "loop_inv E u l" "place_inv l (Running (AtProcess bytes addrlen))" "\<forall>k. x_alloc E k"
  shows "wp (may_die T l (AtProcess bytes addrlen)) (server_process E bytes addrlen l) (loop_inv E u)"
proof (cases "0 < bytes")
  case True
  then have "wp (proc_error E (all_seen (w_swim (l_world l)) \<and> 0 < h_time (hdr (l_event l)) \<and> seen_gossip (l_event l)) (view_size (w_swim (l_world l))))
      (swim_process_event E (l_event l) (l_addr l) addrlen (l_world l)) (keeps E (harmless (l_world l) (l_event l)) (l_world l) 12)"
    using assms(1,2) by (intro wp_swim_process_event) (simp_all add: loop_inv_def place_inv_def)
  then show ?thesis
    using True assms(1,3)
    by (auto simp: server_process_def may_die_def loop_inv_def keeps_def proc_error_def elim!: wp_mono)
qed (use assms(1) in \<open>simp add: server_process_def\<close>)

lemma wp_server_heartbeat:
  assumes "loop_inv E u l" "\<forall>k. x_alloc E k"
  shows "wp (\<lambda>_. False) (server_heartbeat E l) (loop_inv E u)"
proof -
  have "null_allowed E (\<lambda>_. False)" using assms(2) by (simp add: null_allowed_def)
  then show ?thesis
    using assms(1) unfolding server_heartbeat_def wp_rbind
    by (intro wp_mono [OF wp_swim_cluster_heartbeat]) (auto simp: loop_inv_def age_view_def split: if_splits)
qed

lemma wp_server_printout:
  assumes "loop_inv E u l"
  shows "wp (may_die T l AtPrintout) (server_printout E T l) (loop_inv E u)"
  using assms
  by (cases "swim_state_print T (w_swim (l_world l)) (l_printer l)")
    (auto simp: server_printout_def may_die_def c_time_def Let_def loop_inv_def)

lemma wp_server_begin:
  assumes "loop_inv E u (pc_loop p)" "pc_server p \<noteq> None"
  shows "wp (\<lambda>_. False) (pthread_server_begin E p) (loop_inv E u)"
  using assms
  by (auto simp: pthread_server_begin_def loop_inv_def sends_def split: option.split intro!: wp_mono [OF wp_swim_cluster_join])

text \<open>One step keeps the invariant, from every place.\<close>

lemma wp_place_step:
  assumes inv: "proc_inv E T u p" "pc_thread p = Running here" and inp: "admissible inp" and mem: "\<forall>k. x_alloc E k"
  shows "wp (may_die T (pc_loop p) here) (place_step E T inp p here) (\<lambda>(l, t). loop_inv E u l \<and> place_inv l t \<and> (\<forall>at e. t \<noteq> Died at e))"
proof -
  have l: "loop_inv E u (pc_loop p)" "pc_server p \<noteq> None" "place_inv (pc_loop p) (Running here)" using inv by (simp_all add: proc_inv_def)
  have none: "wp (may_die T (pc_loop p) here) r Q" if "wp (\<lambda>_. False) r Q" for r and Q :: "'x \<Rightarrow> bool"
    using that by (rule wp_mono) simp_all
  show ?thesis
  proof (cases here)
    case (AtRecv n)
    have "wp (may_die T (pc_loop p) here) (server_recv rcv (in_stack inp) (pc_loop p))
        (\<lambda>(bytes, addrlen, l'). loop_inv E u l' \<and> place_inv l' (Running (AtProcess bytes addrlen)))"
      if "c_recvfrom (pc_rcvtimeo p) n (in_recv inp) = Some rcv" for rcv
      using that inp AtRecv
      by (intro wp_mono [OF wp_server_recv [OF l(1)]])
        (auto simp: admissible_def c_recvfrom_def may_die_def split: option.splits if_splits)
    then show ?thesis using AtRecv l(1) by (auto split: option.split elim!: wp_mono)
  next
    case (AtProcess bytes addrlen)
    then show ?thesis using wp_server_process [OF l(1) _ mem] l(3) by (auto elim!: wp_mono)
  next
    case AtTest
    then show ?thesis using l by (auto simp: swim_server_running_def split: option.split)
  next
    case AtBegin
    then show ?thesis using none [OF wp_server_begin [OF l(1,2)]] by (auto elim!: wp_mono)
  next
    case AtHeartbeat
    then show ?thesis using none [OF wp_server_heartbeat [OF l(1) mem]] by (auto elim!: wp_mono)
  next
    case AtPrintout
    then show ?thesis using wp_server_printout [OF l(1)] by (auto elim!: wp_mono)
  qed
qed

lemma proc_inv_step:
  assumes inv: "proc_inv E T u p" and inp: "admissible inp" and mem: "\<forall>k. x_alloc E k"
  shows "proc_inv E T u (pthread_server_step E T inp p)"
proof (cases "\<exists>here. pc_thread p = Running here")
  case True
  then obtain here where "pc_thread p = Running here" by blast
  with wp_place_step [OF inv this inp mem] inv show ?thesis
    by (cases "place_step E T inp p here") (auto simp: pthread_server_step_def proc_inv_def)
next
  case False
  then have "pthread_server_step E T inp p = p" by (cases "pc_thread p") (simp_all add: pthread_server_step_def)
  then show ?thesis using inv by simp
qed

lemma reachable_inv:
  assumes "reachable E T p q" "proc_inv E T u p" "\<forall>k. x_alloc E k"
  shows "proc_inv E T u q"
  using assms(1)
proof (induction rule: reachable.induct)
  case (step q r)
  from step.hyps(2) show ?case
  proof (rule proc_stepE, goal_cases)
    case (1 inp)
    then show ?case using proc_inv_step [OF step.IH _ assms(3)] by simp
  next
    case 2
    then show ?case using step.IH by (auto simp: swim_server_stop_def proc_inv_def split: option.splits)
  qed
qed (rule assms(2))

end

section \<open>Stopping\<close>

definition finished :: "Thread \<Rightarrow> bool" where
  "finished t \<longleftrightarrow> t = Returned \<or> (\<exists>here e. t = Died here e)"

text \<open>On a socket with a timeout, a call of \<open>recvfrom\<close> does not wait longer than that; and a thread returns only if it has been
  stopped.\<close>

definition timed :: "'u Proc \<Rightarrow> bool" where
  "timed p \<longleftrightarrow> 0 < pc_rcvtimeo p \<and> (\<forall>n. pc_thread p = Running (AtRecv n) \<longrightarrow> n \<le> pc_rcvtimeo p) \<and>
     (pc_thread p = Returned \<longrightarrow> (\<exists>st. pc_server p = Some st \<and> stopped st)) \<and> pc_thread p \<noteq> NotStarted"

lemma step_keeps [simp]:
  "pc_server (pthread_server_step E T inp p) = pc_server p" "pc_rcvtimeo (pthread_server_step E T inp p) = pc_rcvtimeo p"
  by (simp_all add: pthread_server_step_def split: Thread.split sum.split)

lemma place_step_to:
  assumes "place_step E T inp p here = Inr (l, t)"
  shows "case here of
      AtBegin \<Rightarrow> t = Running AtTest
    | AtTest \<Rightarrow> (\<exists>st. pc_server p = Some st \<and> t = (if stopped st then Returned else Running (AtRecv 0)))
    | AtRecv n \<Rightarrow> (\<exists>bytes addrlen. t = Running (AtProcess bytes addrlen)) \<or>
        t = Running (AtRecv (Suc n)) \<and> (pc_rcvtimeo p = 0 \<or> n < pc_rcvtimeo p)
    | AtProcess bytes addrlen \<Rightarrow> t = Running AtHeartbeat
    | AtHeartbeat \<Rightarrow> t = Running AtPrintout
    | AtPrintout \<Rightarrow> t = Running AtTest"
  using assms
  by (cases here) (auto simp: swim_server_running_def c_recvfrom_def split: option.splits if_splits)

lemma timed_step:
  assumes "timed p"
  shows "timed (pthread_server_step E T inp p)"
proof (cases "pc_thread p")
  case (Running here)
  show ?thesis
  proof (cases "place_step E T inp p here")
    case (Inl e)
    then show ?thesis using assms Running by (simp add: pthread_server_step_def timed_def)
  next
    case (Inr r)
    then obtain l t where "place_step E T inp p here = Inr (l, t)" by (cases r) auto
    then show ?thesis
      using assms Running place_step_to [of E T inp p here l t]
      by (cases here) (auto simp: pthread_server_step_def timed_def split: if_splits)
  qed
qed (use assms in \<open>simp_all add: pthread_server_step_def timed_def\<close>)

lemma timed_stop: "timed p \<Longrightarrow> swim_server_stop p = Inr p' \<Longrightarrow> timed p' \<and> pc_rcvtimeo p' = pc_rcvtimeo p \<and> (\<exists>st. pc_server p' = Some st \<and> stopped st)"
  by (auto simp: swim_server_stop_def timed_def split: option.splits)

lemma reachable_timed:
  assumes "reachable E T p q" "timed p"
  shows "timed q \<and> pc_rcvtimeo q = pc_rcvtimeo p"
  using assms by (induction rule: reachable.induct) (auto elim!: proc_stepE simp: timed_step dest: timed_stop)

text \<open>The steps that a stopped thread still has before it.\<close>

definition steps_left :: "'u Proc \<Rightarrow> nat" where
  "steps_left p =
     (case pc_thread p of
        Running here \<Rightarrow>
          (case here of AtBegin \<Rightarrow> 2 | AtTest \<Rightarrow> 1 | AtRecv n \<Rightarrow> pc_rcvtimeo p - n + 5 | AtProcess _ _ \<Rightarrow> 4 | AtHeartbeat \<Rightarrow> 3 | AtPrintout \<Rightarrow> 2)
      | _ \<Rightarrow> 0)"

lemma steps_left_step:
  assumes "timed p" "pc_server p = Some st" "stopped st"
  shows "steps_left (pthread_server_step E T inp p) \<le> steps_left p - 1"
proof (cases "pc_thread p")
  case (Running here)
  show ?thesis
  proof (cases "place_step E T inp p here")
    case (Inl e)
    then show ?thesis using Running by (simp add: pthread_server_step_def steps_left_def)
  next
    case (Inr r)
    then obtain l t where "place_step E T inp p here = Inr (l, t)" by (cases r) auto
    then show ?thesis
      using assms Running place_step_to [of E T inp p here l t]
      by (cases here) (auto simp: pthread_server_step_def steps_left_def timed_def split: if_splits)
  qed
qed (simp_all add: pthread_server_step_def steps_left_def)

lemma stopped_run:
  assumes "timed p" "pc_server p = Some st" "stopped st" "steps_left p \<le> length inps"
  shows "finished (pc_thread (fold (pthread_server_step E T) inps p))"
  using assms
proof (induction inps arbitrary: p)
  case Nil
  then show ?case by (auto simp: steps_left_def timed_def finished_def split: Thread.splits Place.splits)
next
  case (Cons inp inps)
  have "steps_left (pthread_server_step E T inp p) \<le> length inps"
    using steps_left_step [OF Cons.prems(1-3), of E T inp] Cons.prems(4) by simp
  then show ?case using Cons.IH [of "pthread_server_step E T inp p"] Cons.prems(1-3) by (simp add: timed_step)
qed

text \<open>Without a timeout, a silent network keeps the thread inside \<open>recvfrom\<close> for ever.\<close>

lemma no_timeout_blocks:
  assumes "pc_rcvtimeo p = 0" "pc_thread p = Running (AtRecv n)" "\<forall>inp \<in> set inps. in_recv inp = None"
  shows "pc_thread (fold (pthread_server_step E T) inps p) = Running (AtRecv (n + length inps))"
  using assms by (induction inps arbitrary: p n) (simp_all add: pthread_server_step_def c_recvfrom_def)

section \<open>Starting\<close>

text \<open>The state of \<open>Proc\<close> before the program runs: the buffers of the loop are there, their contents are whatever they are.\<close>

definition blank :: "'u Proc \<Rightarrow> bool" where
  "blank p \<longleftrightarrow> event_slot 11 (l_event (pc_loop p)) \<and> length (l_addr (pc_loop p)) = SIZEOF_STORAGE \<and> pc_thread p = NotStarted"

text \<open>A system that can start a server.\<close>

definition willing :: "Ext \<Rightarrow> bool" where
  "willing E \<longleftrightarrow> 0 \<le> x_socket E \<and> 0 \<le> x_setsockopt E \<and> 0 \<le> x_bind E \<and> (\<forall>k. x_alloc E k)"

lemma swim_server_init_ok:
  assumes "willing E" "blank p"
  obtains w' where "swim_server_init E addr port p =
      p\<lparr>pc_loop := (pc_loop p)\<lparr>l_world := w'\<rparr>, pc_server := Some \<lparr>stopped = False, address = addr\<rparr>, pc_rcvtimeo := 10\<rparr>"
    "loop_inv E (x_uuid_generate E) ((pc_loop p)\<lparr>l_world := w'\<rparr>)" "sin_port (s_addr (w_swim w')) = c_htons (x_little_endian E) port"
proof -
  let ?w = "(l_world (pc_loop p))\<lparr>w_alloc := Suc (w_alloc (l_world (pc_loop p)))\<rparr>"
  obtain w' where w': "swim_state_init E port ?w = (True, 10, w')" "wf_swim E (w_swim w')" "s_uuid (w_swim w') = x_uuid_generate E"
    "sin_port (s_addr (w_swim w')) = c_htons (x_little_endian E) port"
    using swim_state_init_ok [of E ?w port] assms(1) by (auto simp: willing_def)
  show thesis
    by (rule that [of w']) (use w' assms in \<open>simp_all add: swim_server_init_def c_alloc_def willing_def blank_def loop_inv_def Let_def\<close>)
qed

text \<open>A server that has been started.\<close>

lemma server_started:
  assumes "willing E" "blank p" "swim_server_start None (swim_server_init E addr port p) = Inr (None, p')"
  shows "proc_inv E T (x_uuid_generate E) p'" "timed p'" "pc_rcvtimeo p' = 10"
    "print_callback (l_printer (pc_loop p')) = print_callback (l_printer (pc_loop p))"
  by (rule swim_server_init_ok [OF assms(1,2), of addr port],
      use assms in \<open>auto simp: swim_server_start_def proc_inv_def timed_def\<close>)+

section \<open>Examples\<close>

definition sample_proc :: "unit Proc" where
  "sample_proc =
     \<lparr>pc_loop = \<lparr>l_world = sample_world, l_event = zero_event 11, l_addr = zero_storage, last_printout = 0,
        l_printer = \<lparr>print_callback = None, print_callback_userdata = (), print_stderr = []\<rparr>\<rparr>,
      pc_server = None, pc_rcvtimeo = 0, pc_thread = NotStarted\<rparr>"

definition silence :: Input where
  "silence = \<lparr>in_recv = None, in_stack = replicate 2048 0\<rparr>"

lemma sample_proc [simp]: "blank sample_proc" "willing calm_env" "admissible silence"
  by (simp_all add: blank_def sample_proc_def willing_def calm_env_def admissible_def silence_def)

lemma sample_started:
  obtains p' where "swim_server_start None (swim_server_init calm_env \<lparr>sa_addr = zero_storage, sa_addrlen = 0\<rparr> 7946 sample_proc) = Inr (None, p')"
    "pc_server p' = Some \<lparr>stopped = False, address = \<lparr>sa_addr = zero_storage, sa_addrlen = 0\<rparr>\<rparr>"
  by (rule swim_server_init_ok [of calm_env sample_proc "\<lparr>sa_addr = zero_storage, sa_addrlen = 0\<rparr>" 7946])
    (auto simp: swim_server_start_def)

section \<open>Properties\<close>

text \<open>C6: A server that has been initialised and started keeps its invariant whatever the network delivers and whenever it
  is stopped: in every state that the thread and the main program can reach, the view is well formed, the identity is
  the generated one, and the buffers of the loop have their sizes. While memory is available, the thread can die in three
  places only. In receiving, it dies at an assertion of the decoder or at an address that is longer than its object, never
  by an index out of range. In processing, it dies at an assertion, by the deliberate exit, or with a billion nodes at an
  overflow. In the printout, it dies only if a node of its own view cannot be printed (it has no address, a status without a
  name, a time or a witness without a text), or if the program's own callback fails on that view.\<close>

theorem server_invariant:
  assumes "swim_env E" "text_env T" "willing E" "blank p"
    and "swim_server_start None (swim_server_init E addr port p) = Inr (None, p')" "reachable E T p' q"
  shows "loop_inv E (x_uuid_generate E) (pc_loop q) \<and>
         (\<forall>here e. pc_thread q = Died here e \<longrightarrow>
            (case here of
               AtRecv _ \<Rightarrow> e = AssertFailed \<or> e = MemOverflow
             | AtProcess _ _ \<Rightarrow> e = AssertFailed \<or> e = ExitFailure \<or>
                 e = SignedOverflow \<and> 2 ^ 30 \<le> view_size (w_swim (l_world (pc_loop q))) + 12
             | AtPrintout \<Rightarrow>
                 (case print_callback (l_printer (pc_loop q)) of
                    None \<Rightarrow> \<exists>nd \<in> set (nodes (w_swim (l_world (pc_loop q)))). \<not> printable T nd
                  | Some cb \<Rightarrow> cb (w_swim (l_world (pc_loop q))) (print_callback_userdata (l_printer (pc_loop q))) = Inl e)
             | _ \<Rightarrow> False))"
proof -
  have mem: "\<forall>k. x_alloc E k" using assms(3) by (simp add: willing_def)
  have inv: "proc_inv E T (x_uuid_generate E) q"
    using swim_env.reachable_inv [OF assms(1,6) server_started(1) [OF assms(3-5)] mem] .
  have "view_size (w_swim (l_world (pc_loop q))) \<le> length (view (w_swim (l_world (pc_loop q))))"
    using inv wf_swimD(3) by (auto simp: proc_inv_def loop_inv_def)
  then have print: "case print_callback (l_printer (pc_loop q)) of
      None \<Rightarrow> \<exists>nd \<in> set (nodes (w_swim (l_world (pc_loop q)))). \<not> printable T nd
    | Some cb \<Rightarrow> cb (w_swim (l_world (pc_loop q))) (print_callback_userdata (l_printer (pc_loop q))) = Inl e"
    if "swim_state_print T (w_swim (l_world (pc_loop q))) (l_printer (pc_loop q)) = Inl e" for e
    using text_env.swim_state_print_ok [OF assms(2), of "l_printer (pc_loop q)"] that
    by (cases "print_callback (l_printer (pc_loop q))") (force, simp add: swim_state_print_def result_simps)
  have died: "may_die T (pc_loop q) here e" if "pc_thread q = Died here e" for here e
    using inv that by (simp add: proc_inv_def)
  show ?thesis
  proof (intro conjI allI impI, goal_cases)
    case 1
    then show ?case using inv by (simp add: proc_inv_def)
  next
    case (2 here e)
    then show ?case using died [OF 2] print by (cases here) (simp_all add: may_die_def)
  qed
qed

theorem server_invariant_witness:
  "\<exists>p'. swim_server_start None (swim_server_init calm_env \<lparr>sa_addr = zero_storage, sa_addrlen = 0\<rparr> 7946 sample_proc) = Inr (None, p') \<and>
     loop_inv calm_env 7 (pc_loop (pthread_server_step calm_env calm_text silence p'))"
proof -
  obtain p' where p': "swim_server_start None (swim_server_init calm_env \<lparr>sa_addr = zero_storage, sa_addrlen = 0\<rparr> 7946 sample_proc) = Inr (None, p')"
    using sample_started .
  have r: "reachable calm_env calm_text p' (pthread_server_step calm_env calm_text silence p')"
    by (rule reachable.step [OF reachable.start proc_step.thread]) simp
  show ?thesis
    using p' server_invariant [OF calm.swim_env_axioms calm_text.text_env_axioms _ _ p' r] by simp
qed

text \<open>C27: Stopping works, even on a silent network. Whatever a started server has done before it is stopped, and whatever the
  network delivers or does not deliver afterwards, its thread has ended after 15 of its steps: at most ten seconds in
  \<open>recvfrom\<close>, because of the timeout that \<open>swim_state_init\<close> sets for the socket, and the rest of the iteration up to the test
  of the flag. A thread returns only if it has been stopped.\<close>

theorem server_stops:
  assumes "willing E" "blank p" "swim_server_start None (swim_server_init E addr port p) = Inr (None, p')"
    and "reachable E T p' q" "swim_server_stop q = Inr q'" "15 \<le> length inps"
  shows "finished (pc_thread (fold (pthread_server_step E T) inps q')) \<and>
         (pc_thread q = Returned \<longrightarrow> (\<exists>st. pc_server q = Some st \<and> stopped st))"
proof
  have q: "timed q" "pc_rcvtimeo q = 10" using reachable_timed [OF assms(4) server_started(2) [OF assms(1-3)]] server_started(3) [OF assms(1-3)] by simp_all
  then obtain st where q': "timed q'" "pc_rcvtimeo q' = 10" "pc_server q' = Some st" "stopped st" using timed_stop [OF _ assms(5)] by auto
  then have "steps_left q' \<le> 15" by (simp add: steps_left_def split: Thread.split Place.split)
  then show "finished (pc_thread (fold (pthread_server_step E T) inps q'))"
    using stopped_run [OF q'(1,3,4)] assms(6) by simp
  show "pc_thread q = Returned \<longrightarrow> (\<exists>st. pc_server q = Some st \<and> stopped st)" using q(1) by (simp add: timed_def)
qed

theorem server_stops_witness:
  "\<exists>p' q'. swim_server_start None (swim_server_init calm_env \<lparr>sa_addr = zero_storage, sa_addrlen = 0\<rparr> 7946 sample_proc) = Inr (None, p') \<and>
     swim_server_stop (fold (pthread_server_step calm_env calm_text) [silence, silence, silence] p') = Inr q' \<and>
     finished (pc_thread (fold (pthread_server_step calm_env calm_text) (replicate 15 silence) q'))"
proof -
  obtain p' where p': "swim_server_start None (swim_server_init calm_env \<lparr>sa_addr = zero_storage, sa_addrlen = 0\<rparr> 7946 sample_proc) = Inr (None, p')"
    "pc_server p' = Some \<lparr>stopped = False, address = \<lparr>sa_addr = zero_storage, sa_addrlen = 0\<rparr>\<rparr>" using sample_started .
  let ?step = "pthread_server_step calm_env calm_text silence"
  have r: "reachable calm_env calm_text p' (?step (?step (?step p')))"
    by (intro reachable.step [OF _ proc_step.thread] reachable.start) simp_all
  obtain q' where "swim_server_stop (?step (?step (?step p'))) = Inr q'" using p'(2) by (simp add: swim_server_stop_def)
  then show ?thesis using p'(1) server_stops [OF _ _ p'(1) r, of q' "replicate 15 silence"] by auto
qed

end
