(* ===== verification/Swim_Tui.thy ===== *)
theory Swim_Tui
  imports Swim_Server
begin

text \<open>
  The terminal interface, \<open>examples/swim_server_tui.c\<close>: the window layout, the ring buffer of log lines and its
  display, and the table of nodes.

  The static variables of the program are the record \<open>Tui\<close>. A window is known by its size; \<open>newwin\<close> of curses is
  an argument. What a window shows is the list of texts written to it since it was erased, with their rows and
  columns; colours, borders and the refresh of the terminal are not modelled. As in \<open>Swim_Text\<close>, a character array
  is the list of its elements.
\<close>

section \<open>Data\<close>

abbreviation LOG_RING_SIZE :: nat where "LOG_RING_SIZE \<equiv> 256"
abbreviation LOG_LINE_MAX :: nat where "LOG_LINE_MAX \<equiv> 256"

record Window =
  win_rows :: int
  win_cols :: int

type_synonym Draw = "int \<times> int \<times> string"

record Tui =
  status_win :: "Window option"
  log_win :: "Window option"
  log_ring :: "char list list"
  log_head :: nat
  log_count :: nat
  status_draws :: "Draw list"
  log_draws :: "Draw list"

text \<open>The size of a window, as \<open>getmaxyx\<close> gives it; both are \<open>-1\<close> without a window.\<close>

definition getmaxyx :: "Window option \<Rightarrow> int \<times> int" where
  "getmaxyx win = (case win of None \<Rightarrow> (-1, -1) | Some v \<Rightarrow> (win_rows v, win_cols v))"

text \<open>The decimal digits of a number, for \<open>%d\<close>.\<close>

fun show_nat :: "nat \<Rightarrow> string" where
  "show_nat n = (if n < 10 then [] else show_nat (n div 10)) @ [''0123456789'' ! (n mod 10)]"

declare show_nat.simps [simp del]

definition show_int :: "int \<Rightarrow> string" where
  "show_int i = (if i < 0 then ''-'' @ show_nat (nat (- i)) else show_nat (nat i))"

text \<open>The precision of \<open>%.*s\<close>; a negative one counts as none.\<close>

definition clip :: "int \<Rightarrow> string \<Rightarrow> string" where
  "clip n s = (if n < 0 then s else take (nat n) s)"

section \<open>Operations\<close>

definition create_windows ::
  "(int \<Rightarrow> int \<Rightarrow> int \<Rightarrow> int \<Rightarrow> Window option) \<Rightarrow> int \<Rightarrow> int \<Rightarrow> Tui \<Rightarrow> Tui" where
  "create_windows newwin rows cols t =
     (let status_height = rows * 2 div 5;
          status_height = (if status_height < 4 then 4 else status_height)
      in t\<lparr>status_win := newwin status_height cols 0 0,
           log_win := newwin (rows - status_height) cols status_height 0\<rparr>)"

text \<open>One line of the log; the \<open>%\<close> of C keeps the sign of its first operand.\<close>

definition render_line :: "int \<Rightarrow> Tui \<Rightarrow> int \<Rightarrow> nat \<Rightarrow> Draw list \<Rightarrow> Draw list result" where
  "render_line cols t start i ds =
     (let a = int (log_head t) - int (log_count t) + start + int i + int LOG_RING_SIZE in
      if a < 0 then Inl OutOfBounds
      else
        let idx = nat (a mod int LOG_RING_SIZE) in
        if idx < length (log_ring t) then
          rbind (c_string (log_ring t ! idx)) (\<lambda>line. Inr (ds @ [(1 + int i, 1, clip (cols - 2) line)]))
        else Inl OutOfBounds)"

definition render_log :: "Tui \<Rightarrow> Tui result" where
  "render_log t =
     (let (rows, cols) = getmaxyx (log_win t);
          visible = rows - 2;
          count = int (log_count t);
          (start, count) = (if visible < count then (count - visible, visible) else (0, count))
      in rbind (for_loop (render_line cols t start) [0..<nat count] [(0, 2, '' Log '')]) (\<lambda>ds.
         Inr (t\<lparr>log_draws := ds\<rparr>)))"

definition c_strncpy :: "char list \<Rightarrow> string \<Rightarrow> nat \<Rightarrow> char list" where
  "c_strncpy dst src n = take n (src @ replicate n NUL) @ drop n dst"

definition tui_log_sink :: "string \<Rightarrow> Tui \<Rightarrow> Tui result" where
  "tui_log_sink msg t =
     (if log_head t < length (log_ring t) then
        let line = (c_strncpy (log_ring t ! log_head t) msg (LOG_LINE_MAX - 1))[LOG_LINE_MAX - 1 := NUL]
        in render_log (t\<lparr>log_ring := (log_ring t)[log_head t := line],
                         log_head := (log_head t + 1) mod LOG_RING_SIZE,
                         log_count := (if log_count t < LOG_RING_SIZE then log_count t + 1 else log_count t)\<rparr>)
      else Inl OutOfBounds)"

definition tui_time :: "Text \<Rightarrow> nat \<Rightarrow> time_t \<Rightarrow> string result" where
  "tui_time T k t =
     (case t_localtime T t of
        None \<Rightarrow> Inr []
      | Some time \<Rightarrow> rbind (c_strftime (t_stack T k 20) 20 time) c_string)"

definition tui_row :: "Text \<Rightarrow> nat \<Rightarrow> NodeState \<Rightarrow> string result" where
  "tui_row T k nd =
     rbind (tui_time T k (n_last_seen (info nd))) (\<lambda>timestr.
     rbind (addr_ptr T (2 * k) (n_addr (info nd)) (n_addrlen (info nd))) (\<lambda>p.
     rbind (case p of None \<Rightarrow> Inr [] | Some a \<Rightarrow> c_string a) (\<lambda>address.
     rbind (witness_ptr T (2 * k + 1) nd) (\<lambda>q.
     rbind (uuid_arg T k (node_uuid nd)) (\<lambda>u.
     rbind (swim_status_name (node_status nd)) (\<lambda>st.
     rbind (c_arg q) (\<lambda>witness.
     Inr (pad 36 u @ '' '' @ pad 19 timestr @ '' '' @ pad 8 st @ '' '' @ pad 21 address @ '' '' @ pad 21 witness))))))))"

definition tui_node :: "Text \<Rightarrow> SWIM \<Rightarrow> nat \<Rightarrow> Draw list \<Rightarrow> Draw list result" where
  "tui_node T s i ds =
     (if i < length (view s) then rbind (tui_row T i (view s ! i)) (\<lambda>row. Inr (ds @ [(3 + int i, 1, row)])) else Inl OutOfBounds)"

definition tui_header :: string where
  "tui_header = pad 36 ''UUID'' @ '' '' @ pad 19 ''LAST_SEEN'' @ '' '' @ pad 8 ''STATUS'' @ '' '' @ pad 21 ''ADDRESS'' @ '' '' @ pad 21 ''WITNESS''"

definition tui_state_print :: "Text \<Rightarrow> SWIM \<Rightarrow> Tui \<Rightarrow> Tui result" where
  "tui_state_print T s t =
     (let (rows, cols) = getmaxyx (status_win t) in
      rbind (uuid_arg T 0 (s_uuid s)) (\<lambda>u.
      rbind (for_loop (tui_node T s) [0..<min (view_size s) (nat (rows - 4))]
               [(0, 2, '' Nodes ''), (1, 1, ''Self: '' @ u), (2, 1, tui_header)]) (\<lambda>ds.
      Inr (t\<lparr>status_draws := ds @
        (if rows - 4 \<le> int (view_size s) then [(rows - 1, 1, ''('' @ show_int (int (view_size s) - (rows - 4)) @ '' more)'')] else [])\<rparr>))))"

definition handle_sigint :: "'u Proc \<Rightarrow> 'u Proc result" where
  "handle_sigint p = swim_server_stop p"

definition handle_sigwinch ::
  "Text \<Rightarrow> (int \<Rightarrow> int \<Rightarrow> int \<Rightarrow> int \<Rightarrow> Window option) \<Rightarrow> int \<Rightarrow> int \<Rightarrow> SWIM \<Rightarrow> Tui \<Rightarrow> Tui result" where
  "handle_sigwinch T newwin rows cols s t =
     rbind (tui_state_print T s (create_windows newwin rows cols t)) render_log"

section \<open>The log as a bounded list\<close>

definition last_n :: "nat \<Rightarrow> 'a list \<Rightarrow> 'a list" where
  "last_n n xs = drop (length xs - n) xs"

lemma last_n_simps [simp]:
  "length (last_n n xs) = min n (length xs)" "length xs \<le> n \<Longrightarrow> last_n n xs = xs" "set (last_n n xs) \<subseteq> set xs"
  by (auto simp: last_n_def dest: in_set_dropD)

lemma last_n_append: "last_n n (last_n n xs @ ys) = last_n n (xs @ ys)"
  by (cases "length xs \<le> n") (simp_all add: last_n_def add.commute)

text \<open>Logging a sequence of messages.\<close>

primrec push_all :: "(string \<Rightarrow> 's \<Rightarrow> 's result) \<Rightarrow> string list \<Rightarrow> 's \<Rightarrow> 's result" where
  "push_all push [] s = Inr s"
| "push_all push (m # ms) s = rbind (push m s) (push_all push ms)"

text \<open>What a log of bounded length promises: it keeps the last \<open>cap\<close> messages, cut to what fits in a line.\<close>

locale bounded_log =
  fixes inv :: "'s \<Rightarrow> bool"
    and lines :: "'s \<Rightarrow> string list"
    and push :: "string \<Rightarrow> 's \<Rightarrow> 's result"
    and cap :: nat
    and cut :: "string \<Rightarrow> string"
    and ok :: "string \<Rightarrow> bool"
  assumes push_ok: "inv s \<Longrightarrow> ok m \<Longrightarrow> \<exists>s'. push m s = Inr s' \<and> inv s' \<and> lines s' = last_n cap (lines s @ [cut m])"
begin

lemma push_all_ok:
  assumes "inv s" "length (lines s) \<le> cap" "\<forall>m \<in> set ms. ok m"
  shows "\<exists>s'. push_all push ms s = Inr s' \<and> inv s' \<and> lines s' = last_n cap (lines s @ map cut ms)"
  using assms
proof (induction ms arbitrary: s)
  case (Cons m ms)
  obtain s1 where s1: "push m s = Inr s1" "inv s1" "lines s1 = last_n cap (lines s @ [cut m])"
    using push_ok [OF Cons.prems(1)] Cons.prems(3) by auto
  then have "length (lines s1) \<le> cap" by simp
  from Cons.IH [OF s1(2) this] Cons.prems(3) s1 show ?case by (simp add: last_n_append)
qed simp

end

section \<open>The ring buffer\<close>

definition ring_inv :: "Tui \<Rightarrow> bool" where
  "ring_inv t \<longleftrightarrow> length (log_ring t) = LOG_RING_SIZE \<and> (\<forall>l \<in> set (log_ring t). length l = LOG_LINE_MAX \<and> last l = NUL) \<and>
     log_head t < LOG_RING_SIZE \<and> log_count t \<le> LOG_RING_SIZE"

definition ring_index :: "Tui \<Rightarrow> nat \<Rightarrow> nat" where
  "ring_index t i = (log_head t + LOG_RING_SIZE - log_count t + i) mod LOG_RING_SIZE"

definition line_of :: "char list \<Rightarrow> string" where
  "line_of l = takeWhile (\<lambda>c. c \<noteq> NUL) l"

definition tui_lines :: "Tui \<Rightarrow> string list" where
  "tui_lines t = map (\<lambda>i. line_of (log_ring t ! ring_index t i)) [0..<log_count t]"

definition store_line :: "string \<Rightarrow> Tui \<Rightarrow> Tui" where
  "store_line msg t =
     t\<lparr>log_ring := (log_ring t)[log_head t := (c_strncpy (log_ring t ! log_head t) msg (LOG_LINE_MAX - 1))[LOG_LINE_MAX - 1 := NUL]],
       log_head := (log_head t + 1) mod LOG_RING_SIZE,
       log_count := (if log_count t < LOG_RING_SIZE then log_count t + 1 else log_count t)\<rparr>"

lemma line_strncpy:
  assumes "length old = 256" "NUL \<notin> set msg"
  defines "new \<equiv> (c_strncpy old msg 255)[255 := NUL]"
  shows "line_of new = take 255 msg" "length new = 256" "last new = NUL"
proof -
  obtain xs c where "old = xs @ [c]" "length xs = 255" using assms(1) by (cases old rule: rev_cases) auto
  then have old: "drop 255 old = [c]" by simp
  let ?x = "take 255 (msg @ replicate 255 NUL)"
  have x: "length ?x = 255" by simp
  have new: "new = ?x @ [NUL]" unfolding new_def c_strncpy_def old using list_update_length [of ?x c "[]" NUL] unfolding x .
  then show "length new = 256" "last new = NUL" using x by simp_all
  have "takeWhile (\<lambda>c. c \<noteq> NUL) (take 255 msg @ replicate (255 - length msg) NUL @ [NUL]) = take 255 msg"
  proof (rule takeWhile_append2 [THEN trans])
    show "c \<noteq> NUL" if "c \<in> set (take 255 msg)" for c using that assms(2) in_set_takeD by metis
    show "take 255 msg @ takeWhile (\<lambda>c. c \<noteq> NUL) (replicate (255 - length msg) NUL @ [NUL]) = take 255 msg"
      by (cases "255 - length msg") simp_all
  qed
  moreover have "?x = take 255 msg @ replicate (255 - length msg) NUL" by (simp add: min_def)
  ultimately show "line_of new = take 255 msg" by (simp only: line_of_def new append_assoc)
qed

lemma tui_lines_nth [simp]:
  "length (tui_lines t) = log_count t"
  "i < log_count t \<Longrightarrow> tui_lines t ! i = line_of (log_ring t ! ring_index t i)"
  by (simp_all add: tui_lines_def)

lemma ring_arith:
  fixes h c i d :: nat
  assumes "h < 256"
  shows "c < 256 \<Longrightarrow> (Suc h mod 256 + 256 - Suc c + i) mod 256 = (h + 256 - c + i) mod 256"
    and "(Suc h mod 256 + i) mod 256 = Suc (h + i) mod 256"
    and "0 < d \<Longrightarrow> d < 256 \<Longrightarrow> (h + d) mod 256 \<noteq> h"
proof -
  show "(Suc h mod 256 + i) mod 256 = Suc (h + i) mod 256" by (metis add_Suc mod_add_left_eq)
  show "(h + d) mod 256 \<noteq> h" if "0 < d" "d < 256"
  proof (cases "h + d < 256")
    case False
    then have "(h + d) mod 256 = h + d - 256" using assms that by (simp add: mod_if)
    then show ?thesis using that False by linarith
  qed (use that in simp)
  show "(Suc h mod 256 + 256 - Suc c + i) mod 256 = (h + 256 - c + i) mod 256" if c: "c < 256"
  proof (cases "Suc h < 256")
    case True
    then show ?thesis by (simp add: add.commute)
  next
    case False
    then have "h = 255" using assms by simp
    moreover have "255 + 256 - c + i = (256 - Suc c + i) + 256" using c by simp
    ultimately show ?thesis by (simp only: mod_add_self2) simp
  qed
qed

lemma ring_index_bound: "ring_index t i < 256"
  by (simp add: ring_index_def)

lemma store_line_inv:
  assumes "ring_inv t" "NUL \<notin> set msg"
  shows "ring_inv (store_line msg t)"
proof -
  let ?new = "(c_strncpy (log_ring t ! log_head t) msg 255)[255 := NUL]"
  have "length (log_ring t ! log_head t) = 256" using assms(1) by (simp add: ring_inv_def)
  then have "length ?new = 256 \<and> last ?new = NUL" using line_strncpy [OF _ assms(2)] by blast
  then show ?thesis
    using assms(1) by (auto simp: ring_inv_def store_line_def dest!: set_update_subset_insert [THEN subsetD])
qed

lemma store_line_lines:
  assumes inv: "ring_inv t" and msg: "NUL \<notin> set msg"
  shows "tui_lines (store_line msg t) = last_n LOG_RING_SIZE (tui_lines t @ [take 255 msg])"
proof -
  let ?new = "(c_strncpy (log_ring t ! log_head t) msg 255)[255 := NUL]"
  have h: "log_head t < 256" "log_count t \<le> 256" "length (log_ring t) = 256" using inv by (simp_all add: ring_inv_def)
  have "length (log_ring t ! log_head t) = 256" using inv by (simp add: ring_inv_def)
  then have new: "line_of ?new = take 255 msg" using line_strncpy(1) [OF _ msg] by blast
  have hd: "line_of (log_ring (store_line msg t) ! j) = (if j = log_head t then take 255 msg else line_of (log_ring t ! j))"
    if "j < 256" for j using h that new by (simp add: store_line_def nth_list_update)
  show ?thesis
  proof (cases "log_count t < 256")
    case True
    then have c: "log_count (store_line msg t) = Suc (log_count t)" by (simp add: store_line_def)
    have idx: "ring_index (store_line msg t) i = ring_index t i" if "i \<le> log_count t" for i
      using ring_arith(1) [of "log_head t" "log_count t" i] True h that by (simp add: ring_index_def store_line_def)
    have ne: "ring_index t i \<noteq> log_head t" if "i < log_count t" for i
      using ring_arith(3) [OF h(1), of "256 - log_count t + i"] True h that by (simp add: ring_index_def add.assoc)
    have eq: "ring_index t (log_count t) = log_head t" using h by (simp add: ring_index_def)
    have "tui_lines (store_line msg t) ! i = (tui_lines t @ [take 255 msg]) ! i" if "i < Suc (log_count t)" for i
      using that c idx [of i] ne [of i] eq hd [OF ring_index_bound [of t i]] by (cases "i = log_count t") (simp_all add: nth_append)
    then have "tui_lines (store_line msg t) = tui_lines t @ [take 255 msg]"
      using c by (intro nth_equalityI) simp_all
    then show ?thesis using True by simp
  next
    case False
    then have c: "log_count t = 256" "log_count (store_line msg t) = 256" using h by (simp_all add: store_line_def)
    have idx: "ring_index (store_line msg t) i = ring_index t (Suc i)" for i
      using c h ring_arith(2) [of "log_head t" i] by (simp add: ring_index_def store_line_def)
    have ne: "ring_index t (Suc i) \<noteq> log_head t" if "i < 255" for i
      using ring_arith(3) [OF h(1), of "Suc i"] c that by (simp add: ring_index_def)
    have eq: "ring_index t 256 = log_head t" using c h by (simp add: ring_index_def)
    have l: "last_n 256 (tui_lines t @ [take 255 msg]) = tl (tui_lines t) @ [take 255 msg]"
      using c by (simp add: last_n_def drop_Suc)
    have "tui_lines (store_line msg t) ! i = (tl (tui_lines t) @ [take 255 msg]) ! i" if i: "i < 256" for i
    proof (cases "i = 255")
      case True
      then show ?thesis using c eq idx [of 255] hd [OF h(1)] by (simp add: nth_append)
    next
      case False
      then have "i < 255" using i by simp
      then show ?thesis
        using c i idx [of i] ne [of i] hd [OF ring_index_bound [of t "Suc i"]] by (simp add: nth_append nth_tl)
    qed
    then show ?thesis unfolding l using c by (intro nth_equalityI) simp_all
  qed
qed

section \<open>Displaying the log\<close>

text \<open>What the log window shows: its title and the last lines that fit.\<close>

definition log_display :: "int \<Rightarrow> int \<Rightarrow> string list \<Rightarrow> Draw list" where
  "log_display rows cols ls =
     (0, 2, '' Log '') # map (\<lambda>(i, l). (1 + int i, 1, clip (cols - 2) l)) (enumerate 0 (last_n (nat (rows - 2)) ls))"

lemma line_c_string: "l \<noteq> [] \<Longrightarrow> last l = NUL \<Longrightarrow> c_string l = Inr (line_of l)"
  using last_in_set [of l] by (auto simp: c_string_def line_of_def)

lemma render_line_ok:
  assumes inv: "ring_inv t" and i: "k + i < log_count t"
  shows "render_line cols t (int k) i ds = Inr (ds @ [(1 + int i, 1, clip (cols - 2) (tui_lines t ! (k + i)))])"
proof -
  have h: "log_head t < 256" "log_count t \<le> 256" "length (log_ring t) = 256" using inv by (simp_all add: ring_inv_def)
  have a: "int (log_head t) - int (log_count t) + int k + int i + int LOG_RING_SIZE
      = int (log_head t + LOG_RING_SIZE - log_count t + (k + i))"
    using h(2) by simp
  let ?j = "ring_index t (k + i)"
  have j: "?j < 256" by (rule ring_index_bound)
  then have mem: "log_ring t ! ?j \<in> set (log_ring t)" using h(3) by simp
  have "length (log_ring t ! ?j) = 256 \<and> last (log_ring t ! ?j) = NUL" using inv mem unfolding ring_inv_def by blast
  then have "c_string (log_ring t ! ?j) = Inr (line_of (log_ring t ! ?j))" by (intro line_c_string) auto
  moreover have "nat (int (log_head t + LOG_RING_SIZE - log_count t + (k + i)) mod int LOG_RING_SIZE) = ?j"
    unfolding ring_index_def by (simp only: zmod_int [symmetric] nat_int)
  ultimately show ?thesis
    using j h(3) i unfolding render_line_def a Let_def by simp
qed

lemma render_log_ok:
  assumes inv: "ring_inv t" and win: "log_win t = Some v"
  shows "render_log t = Inr (t\<lparr>log_draws := log_display (win_rows v) (win_cols v) (tui_lines t)\<rparr>)"
proof -
  define vis where "vis = nat (win_rows v - 2)"
  define n where "n = min (log_count t) vis"
  define k where "k = log_count t - n"
  let ?ls = "last_n vis (tui_lines t)"
  define shown :: "nat \<Rightarrow> Draw list" where
    "shown j = (0, 2, '' Log '') # map (\<lambda>i. (1 + int i, 1, clip (win_cols v - 2) (?ls ! i))) [0..<j]" for j
  have ls: "length ?ls = n" by (simp add: n_def min.commute)
  have nth: "?ls ! i = tui_lines t ! (k + i)" if "i < n" for i
    using that by (cases "log_count t \<le> vis") (simp_all add: last_n_def k_def n_def)
  have "wp (\<lambda>_. False) (for_loop (render_line (win_cols v) t (int k)) [0..<n] (shown 0)) (\<lambda>ds. ds = shown n)"
  proof (rule wp_for_upt [where I = "\<lambda>j ds. ds = shown j"])
    fix j ds assume j: "j < n" and ds: "ds = shown j"
    have "k + j < log_count t" using j by (cases "log_count t \<le> vis") (simp_all add: k_def n_def)
    from render_line_ok [OF inv this, of "win_cols v" ds]
    show "wp (\<lambda>_. False) (render_line (win_cols v) t (int k) j ds) (\<lambda>ds. ds = shown (Suc j))"
      using nth [OF j] by (simp add: ds shown_def)
  qed simp
  moreover have "shown n = log_display (win_rows v) (win_cols v) (tui_lines t)"
    unfolding shown_def log_display_def vis_def [symmetric]
    using ls by (intro arg_cong2 [where f = Cons] refl nth_equalityI) (simp_all add: nth_enumerate_eq)
  ultimately have loop: "for_loop (render_line (win_cols v) t (int k)) [0..<n] [(0, 2, '' Log '')]
      = Inr (log_display (win_rows v) (win_cols v) (tui_lines t))"
    by (cases "for_loop (render_line (win_cols v) t (int k)) [0..<n] (shown 0)") (auto simp: shown_def)
  show ?thesis
  proof (cases "win_rows v - 2 < int (log_count t)")
    case True
    show ?thesis
    proof (cases "0 \<le> win_rows v - 2")
      case nonneg: True
      then have "n = nat (win_rows v - 2)" "int k = int (log_count t) - (win_rows v - 2)"
        using True by (auto simp: n_def k_def vis_def)
      then show ?thesis using True loop win by (simp add: render_log_def getmaxyx_def)
    next
      case False
      then have "n = 0" by (simp add: n_def vis_def)
      moreover have "nat (win_rows v - 2) = 0" using False by simp
      ultimately show ?thesis using True loop win by (simp add: render_log_def getmaxyx_def)
    qed
  next
    case False
    then have "n = log_count t" "k = 0" by (simp_all add: n_def k_def vis_def)
    then show ?thesis using False loop win by (simp add: render_log_def getmaxyx_def)
  qed
qed

lemma tui_log_sink_ok:
  assumes inv: "ring_inv t" and win: "log_win t = Some v" and msg: "NUL \<notin> set msg"
  shows "tui_log_sink msg t = Inr ((store_line msg t)\<lparr>log_draws := log_display (win_rows v) (win_cols v) (tui_lines (store_line msg t))\<rparr>)"
proof -
  have "log_head t < length (log_ring t)" using inv by (simp add: ring_inv_def)
  then have "tui_log_sink msg t = render_log (store_line msg t)"
    by (simp add: tui_log_sink_def store_line_def Let_def)
  moreover have "log_win (store_line msg t) = Some v" using win by (simp add: store_line_def)
  ultimately show ?thesis using render_log_ok [OF store_line_inv [OF inv msg]] by simp
qed

text \<open>The log is intact and the window \<open>v\<close> shows its end.\<close>

definition log_shown :: "Window \<Rightarrow> Tui \<Rightarrow> bool" where
  "log_shown v t \<longleftrightarrow> ring_inv t \<and> log_win t = Some v \<and> log_draws t = log_display (win_rows v) (win_cols v) (tui_lines t)"

lemma log_draws_upd [simp]:
  "ring_inv (t\<lparr>log_draws := ds\<rparr>) = ring_inv t" "tui_lines (t\<lparr>log_draws := ds\<rparr>) = tui_lines t"
  by (simp_all add: ring_inv_def tui_lines_def ring_index_def)

lemma log_win_store [simp]: "log_win (store_line msg t) = log_win t"
  by (simp add: store_line_def)

interpretation tui_log: bounded_log "log_shown v" tui_lines tui_log_sink LOG_RING_SIZE "take 255" "\<lambda>m. NUL \<notin> set m" for v
proof
  fix t m assume "log_shown v t" and m: "NUL \<notin> set m"
  then have t: "ring_inv t" "log_win t = Some v" by (auto simp: log_shown_def)
  show "\<exists>t'. tui_log_sink m t = Inr t' \<and> log_shown v t' \<and> tui_lines t' = last_n LOG_RING_SIZE (tui_lines t @ [take 255 m])"
    using tui_log_sink_ok [OF t m] store_line_lines [OF t(1) m] store_line_inv [OF t(1) m] t(2)
    by (simp add: log_shown_def)
qed

section \<open>The table of nodes\<close>

definition name_text :: "Text \<Rightarrow> byte list \<Rightarrow> string" where
  "name_text T a = (case t_getnameinfo T NI_NUMERICSERV a of Some (host, service) \<Rightarrow> host @ '':'' @ service | None \<Rightarrow> [])"

definition tui_row_text :: "Text \<Rightarrow> NodeState \<Rightarrow> string" where
  "tui_row_text T nd =
     pad 36 (t_uuid_unparse T (node_uuid nd)) @ '' '' @
     pad 19 (case t_localtime T (n_last_seen (info nd)) of None \<Rightarrow> [] | Some time \<Rightarrow> time) @ '' '' @
     pad 8 (projr (swim_status_name (node_status nd))) @ '' '' @
     pad 21 (name_text T (take (n_addrlen (info nd)) (n_addr (info nd)))) @ '' '' @
     pad 21 (if w_addrlen nd = 0 then [] else name_text T (take (w_addrlen nd) (w_addr nd)))"

definition tui_printable :: "Text \<Rightarrow> NodeState \<Rightarrow> bool" where
  "tui_printable T nd \<longleftrightarrow> 0 < n_addrlen (info nd) \<and> named_status (node_status nd) \<and>
     (\<forall>time. t_localtime T (n_last_seen (info nd)) = Some time \<longrightarrow> length time < 20) \<and>
     (0 < w_addrlen nd \<longrightarrow> t_getnameinfo T NI_NUMERICSERV (take (w_addrlen nd) (w_addr nd)) \<noteq> None)"

context text_env
begin

lemma address_text:
  assumes "0 < addrlen"
  shows "\<exists>p. addr_ptr T k addr addrlen = Inr p \<and>
     (case p of None \<Rightarrow> Inr [] | Some a \<Rightarrow> c_string a) = Inr (name_text T (take addrlen addr)) \<and>
     (t_getnameinfo T NI_NUMERICSERV (take addrlen addr) \<noteq> None \<longrightarrow> c_arg p = Inr (name_text T (take addrlen addr)))"
proof (cases "t_getnameinfo T NI_NUMERICSERV (take addrlen addr)")
  case None
  then show ?thesis using assms by (simp add: addr_ptr_def swim_addr_str_r_def name_text_def)
next
  case (Some hs)
  obtain host service where a: "t_getnameinfo T NI_NUMERICSERV (take addrlen addr) = Some (host, service)"
    using Some by (cases hs) simp
  obtain b where "addr_ptr T k addr addrlen = Inr (Some b)" "c_string b = Inr (host @ '':'' @ service)"
    using addr_ptr_ok [OF assms a] by blast
  then show ?thesis using a by (simp add: name_text_def c_arg_def)
qed

lemma tui_time_ok:
  assumes "\<forall>time. t_localtime T t = Some time \<longrightarrow> length time < 20"
  shows "tui_time T k t = Inr (case t_localtime T t of None \<Rightarrow> [] | Some time \<Rightarrow> time)"
proof (cases "t_localtime T t")
  case None
  then show ?thesis by (simp add: tui_time_def)
next
  case (Some time)
  then obtain buf' where "c_sprintf (t_stack T k 20) 0 time = Inr buf'" "c_string buf' = Inr time"
    by (rule c_sprintf_string [of time "t_stack T k 20", OF times [THEN conjunct2]]) (use assms Some in \<open>auto simp: stack\<close>)
  then show ?thesis using Some assms by (simp add: tui_time_def c_strftime_def)
qed

lemma tui_row_ok:
  assumes p: "tui_printable T nd"
  shows "tui_row T k nd = Inr (tui_row_text T nd)"
proof -
  obtain st where st: "swim_status_name (node_status nd) = Inr st" using p by (auto simp: tui_printable_def named_status_name)
  have t: "tui_time T k (n_last_seen (info nd)) = Inr (case t_localtime T (n_last_seen (info nd)) of None \<Rightarrow> [] | Some time \<Rightarrow> time)"
    using p by (intro tui_time_ok) (simp add: tui_printable_def)
  obtain a where a: "addr_ptr T (2 * k) (n_addr (info nd)) (n_addrlen (info nd)) = Inr a"
    "(case a of None \<Rightarrow> Inr [] | Some b \<Rightarrow> c_string b) = Inr (name_text T (take (n_addrlen (info nd)) (n_addr (info nd))))"
    using address_text [of "n_addrlen (info nd)" "2 * k" "n_addr (info nd)"] p by (auto simp: tui_printable_def)
  obtain q where "witness_ptr T (2 * k + 1) nd = Inr q"
    "c_arg q = Inr (if w_addrlen nd = 0 then [] else name_text T (take (w_addrlen nd) (w_addr nd)))"
    using address_text [of "w_addrlen nd" "2 * k + 1" "w_addr nd"] p
    by (cases "w_addrlen nd = 0") (auto simp: tui_printable_def witness_ptr_def c_arg_def c_string_def)
  with st t a show ?thesis by (simp only: tui_row_def tui_row_text_def rbind_simps sum.sel uuid_arg_ok)
qed

lemma tui_loop_ok:
  assumes "n \<le> view_size s" "view_size s \<le> length (view s)" "\<forall>nd \<in> set (take n (view s)). tui_printable T nd"
  shows "for_loop (tui_node T s) [0..<n] ds = Inr (ds @ map (\<lambda>i. (3 + int i, 1, tui_row_text T (view s ! i))) [0..<n])"
proof -
  have "wp (\<lambda>_. False) (for_loop (tui_node T s) [0..<n] ds)
     (\<lambda>ds'. ds' = ds @ map (\<lambda>i. (3 + int i, 1, tui_row_text T (view s ! i))) [0..<n])"
  proof (rule wp_for_upt [where I = "\<lambda>k ds'. ds' = ds @ map (\<lambda>i. (3 + int i, 1, tui_row_text T (view s ! i))) [0..<k]"])
    fix k ds' assume k: "k < n" and ds': "ds' = ds @ map (\<lambda>i. (3 + int i, 1, tui_row_text T (view s ! i))) [0..<k]"
    have kl: "k < length (view s)" using k assms(1,2) by simp
    then have "view s ! k \<in> set (take n (view s))" using k by (metis in_set_conv_nth length_take min_less_iff_conj nth_take)
    then show "wp (\<lambda>_. False) (tui_node T s k ds')
        (\<lambda>ds'. ds' = ds @ map (\<lambda>i. (3 + int i, 1, tui_row_text T (view s ! i))) [0..<Suc k])"
      using kl ds' assms(3) by (simp add: tui_node_def tui_row_ok)
  qed simp
  then show ?thesis by (cases "for_loop (tui_node T s) [0..<n] ds") auto
qed

end

section \<open>Examples\<close>

definition sample_tui :: Tui where
  "sample_tui = \<lparr>status_win = Some \<lparr>win_rows = 6, win_cols = 120\<rparr>, log_win = Some \<lparr>win_rows = 4, win_cols = 10\<rparr>,
     log_ring = replicate 256 (replicate 256 NUL), log_head = 0, log_count = 0, status_draws = [], log_draws = []\<rparr>"

lemma sample_tui [simp]:
  "ring_inv sample_tui" "tui_lines sample_tui = []" "log_win sample_tui = Some \<lparr>win_rows = 4, win_cols = 10\<rparr>"
  "status_win sample_tui = Some \<lparr>win_rows = 6, win_cols = 120\<rparr>"
  by (simp_all add: sample_tui_def ring_inv_def tui_lines_def)

definition tui_sample_node :: "uuid \<Rightarrow> NodeState" where
  "tui_sample_node u = (sample_node u SWIM_STATUS_ALIVE 990)\<lparr>info := (info (sample_node u SWIM_STATUS_ALIVE 990))\<lparr>n_addrlen := 16\<rparr>\<rparr>"

lemma tui_sample_node [simp]: "tui_printable calm_text (tui_sample_node u)"
  by (simp add: tui_printable_def tui_sample_node_def named_status_def calm_text_def sample_node_def zero_node_def zero_info_def)

section \<open>Properties\<close>

text \<open>C33: The ring buffer of the terminal interface implements a bounded log: after any sequence of messages it holds the last
  256 of them, oldest first, each cut to 255 characters, and the log window shows the last of these lines that fit
  between its borders, each cut to its width. No message makes the program index the buffer out of range.\<close>

theorem tui_log_refines:
  assumes "ring_inv t" "log_win t = Some v" "\<forall>m \<in> set ms. NUL \<notin> set m"
  shows "\<exists>t0 t'. render_log t = Inr t0 \<and> push_all tui_log_sink ms t0 = Inr t' \<and> ring_inv t' \<and>
           tui_lines t' = last_n LOG_RING_SIZE (tui_lines t @ map (take 255) ms) \<and>
           log_draws t' = log_display (win_rows v) (win_cols v) (tui_lines t')"
proof -
  let ?t0 = "t\<lparr>log_draws := log_display (win_rows v) (win_cols v) (tui_lines t)\<rparr>"
  have "log_shown v ?t0" using assms(1,2) by (simp add: log_shown_def)
  moreover have "length (tui_lines ?t0) \<le> LOG_RING_SIZE" using assms(1) by (simp add: ring_inv_def)
  ultimately show ?thesis
    using tui_log.push_all_ok [of v ?t0 ms] render_log_ok [OF assms(1,2)] assms(3) by (auto simp: log_shown_def)
qed

theorem tui_log_refines_witness:
  "\<exists>t0 t'. render_log sample_tui = Inr t0 \<and> push_all tui_log_sink [''one'', ''two'', ''three words''] t0 = Inr t' \<and>
     tui_lines t' = [''one'', ''two'', ''three words''] \<and>
     log_draws t' = [(0, 2, '' Log ''), (1, 1, ''two''), (2, 1, ''three wo'')]"
  using tui_log_refines [of sample_tui "\<lparr>win_rows = 4, win_cols = 10\<rparr>" "[''one'', ''two'', ''three words'']"]
  by (auto simp: last_n_def log_display_def clip_def simp del: tui_lines_nth)

text \<open>C34: The table of nodes stays inside the rows of its window: in a window of at least four rows, for a view whose nodes can be printed,
  exactly the first \<open>rows - 4\<close> nodes (or all, if there are fewer) are shown, one per row below the header, and everything
  is written between the first and the last row. The line that tells how many nodes are not shown also appears, as
  \<open>(0 more)\<close>, when every node is shown and the table is just full.\<close>

theorem tui_table_bounds:
  assumes "text_env T" "status_win t = Some v" "4 \<le> win_rows v" "view_size s \<le> length (view s)"
    and "\<forall>nd \<in> set (nodes s). tui_printable T nd"
  defines "n \<equiv> min (view_size s) (nat (win_rows v - 4))"
  shows "\<exists>t'. tui_state_print T s t = Inr t' \<and>
     status_draws t' = [(0, 2, '' Nodes ''), (1, 1, ''Self: '' @ t_uuid_unparse T (s_uuid s)), (2, 1, tui_header)] @
       map (\<lambda>i. (3 + int i, 1, tui_row_text T (view s ! i))) [0..<n] @
       (if win_rows v - 4 \<le> int (view_size s) then [(win_rows v - 1, 1, ''('' @ show_nat (view_size s - n) @ '' more)'')] else []) \<and>
     (\<forall>(row, col, line) \<in> set (status_draws t'). 0 \<le> row \<and> row < win_rows v)"
proof -
  have "\<forall>nd \<in> set (take n (view s)). tui_printable T nd"
    using assms(5) set_take_subset_set_take [of n "view_size s" "view s"] by (auto simp: n_def)
  then have loop: "for_loop (tui_node T s) [0..<n] ds = Inr (ds @ map (\<lambda>i. (3 + int i, 1, tui_row_text T (view s ! i))) [0..<n])" for ds
    using text_env.tui_loop_ok [OF assms(1), of n s ds] assms(4) by (simp add: n_def)
  have more: "show_int (int (view_size s) - (win_rows v - 4)) = show_nat (view_size s - n)" if "win_rows v - 4 \<le> int (view_size s)"
    using that assms(3) by (auto simp: show_int_def n_def nat_diff_distrib intro!: arg_cong [where f = show_nat])
  show ?thesis
    using assms(2,3) loop more text_env.uuid_arg_ok [OF assms(1)]
    by (auto simp: tui_state_print_def getmaxyx_def n_def [symmetric]) (auto simp: n_def)
qed

theorem tui_table_bounds_witness:
  "\<exists>t'. tui_state_print calm_text (sample_swim\<lparr>view_size := 2, view := [tui_sample_node 2, tui_sample_node 5]\<rparr>) sample_tui = Inr t' \<and>
     (5, 1, ''(0 more)'') \<in> set (status_draws t')"
proof -
  let ?s = "sample_swim\<lparr>view_size := 2, view := [tui_sample_node 2, tui_sample_node 5]\<rparr>" and ?v = "\<lparr>win_rows = 6, win_cols = 120\<rparr>"
  have "\<exists>t'. tui_state_print calm_text ?s sample_tui = Inr t' \<and>
     status_draws t' = [(0, 2, '' Nodes ''), (1, 1, ''Self: '' @ t_uuid_unparse calm_text (s_uuid ?s)), (2, 1, tui_header)] @
       map (\<lambda>i. (3 + int i, 1, tui_row_text calm_text (view ?s ! i))) [0..<min (view_size ?s) (nat (win_rows ?v - 4))] @
       (if win_rows ?v - 4 \<le> int (view_size ?s)
        then [(win_rows ?v - 1, 1, ''('' @ show_nat (view_size ?s - min (view_size ?s) (nat (win_rows ?v - 4))) @ '' more)'')] else []) \<and>
     (\<forall>(row, col, line) \<in> set (status_draws t'). 0 \<le> row \<and> row < win_rows ?v)"
    by (rule tui_table_bounds [OF calm_text.text_env_axioms]) simp_all
  then show ?thesis by (auto simp: show_nat.simps)
qed

end
