(* ===== verification/Swim_Programs.thy ===== *)
theory Swim_Programs
  imports Swim_Tui
begin

text \<open>
  The example programs: \<open>examples/swim_client.c\<close>, which sends one event to a server, and the command lines and main
  functions of \<open>examples/swim_server.c\<close> and \<open>examples/swim_server_tui.c\<close>.

  The client does not use the encoder: it sends the \<open>Event\<close> struct as it lies in memory. \<open>struct_bytes\<close> is that object
  representation, for the usual layout with 4-byte enumerations, 8-byte alignment and zeroed padding. \<open>Host\<close> collects
  what the programs take from the system: \<open>getaddrinfo\<close>, \<open>getnameinfo\<close>, the calls on sockets, \<open>uuid_parse\<close>, and the
  options that \<open>getopt\<close> delivers with the arguments it leaves.
\<close>

section \<open>Data\<close>

abbreviation SWIM_DEFAULT_PORTNO :: nat where "SWIM_DEFAULT_PORTNO \<equiv> 7946"
abbreviation BUFSIZE :: nat where "BUFSIZE \<equiv> 1024"

record Host =
  o_getaddrinfo :: "string \<Rightarrow> string \<Rightarrow> byte list option"
  o_nameable :: "byte list \<Rightarrow> bool"
  o_socket :: int
  o_sendto :: int
  o_recv :: "byte list option"
  o_uuid_parse :: "string \<Rightarrow> uuid option"
  o_uuid_generate :: uuid
  o_time :: time_t
  o_stack :: "nat \<Rightarrow> byte list"
  o_getopt :: "string \<Rightarrow> string list \<Rightarrow> (char \<times> string) list \<times> string list"

text \<open>How a program ends: with a status, after what it has sent and written to the standard output.\<close>

record Exit =
  e_status :: int
  e_sent :: "Datagram list"
  e_stdout :: string

abbreviation EXIT_SUCCESS :: int where "EXIT_SUCCESS \<equiv> 0"
abbreviation EXIT_FAILURE :: int where "EXIT_FAILURE \<equiv> 1"

definition native_u32 :: "bool \<Rightarrow> nat \<Rightarrow> byte list" where
  "native_u32 le v = (if le then rev (be_bytes 4 v) else be_bytes 4 v)"

definition native_u16 :: "bool \<Rightarrow> nat \<Rightarrow> byte list" where
  "native_u16 le v = (if le then rev (be_bytes 2 v) else be_bytes 2 v)"

text \<open>The 200 bytes of an event without gossip.\<close>

definition struct_bytes :: "bool \<Rightarrow> Event \<Rightarrow> byte list" where
  "struct_bytes le ev =
     native_u32 le (event_code (h_type (hdr ev))) @ uuid_bytes (h_uuid (hdr ev)) @ replicate 4 0 @
     native_u64 le (of_signed 64 (h_time (hdr ev))) @ native_u32 le (unat (h_incarnation (hdr ev))) @ replicate 4 0 @
     uuid_bytes (ev_uuid ev) @ native_u32 le (join_addrlen ev) @ replicate 4 0 @ join_addr ev @
     native_u16 le (gossip_count ev) @ replicate 6 0"

text \<open>The header that a program sees which reads bytes as an \<open>Event\<close>.\<close>

definition struct_header :: "bool \<Rightarrow> byte list \<Rightarrow> EventHeader" where
  "struct_header le bs =
     (let num = (\<lambda>b. be_val (if le then rev b else b)) in
      \<lparr>h_type = event_of_code (num (take 4 bs)), h_uuid = uuid_of_bytes (take 16 (drop 4 bs)),
       h_time = to_signed 64 (num (take 8 (drop 24 bs))), h_incarnation = word_of_nat (num (take 4 (drop 32 bs)))\<rparr>)"

section \<open>The client\<close>

text \<open>The event for the arguments after the program's name, or \<open>None\<close> if they are refused; the result of \<open>uuid_parse\<close>
  is not tested, and it leaves the identifier alone when it fails.\<close>

definition client_uuid :: "Host \<Rightarrow> string list \<Rightarrow> Event \<Rightarrow> Event option" where
  "client_uuid H argv ev =
     (if 3 < length argv then
        Some (case o_uuid_parse H (argv ! 3) of None \<Rightarrow> ev | Some u \<Rightarrow> ev\<lparr>ev_uuid := u\<rparr>)
      else None)"

definition client_event :: "Host \<Rightarrow> string list \<Rightarrow> Event option" where
  "client_event H argv =
     (let ev = zero_event 0;
          typed = (\<lambda>ty. ev\<lparr>hdr := (hdr ev)\<lparr>h_type := ty\<rparr>\<rparr>);
          made = (if argv ! 2 = ''ping'' then Some (typed EVENT_TYPE_PING)
                  else if argv ! 2 = ''ping_req'' then client_uuid H argv (typed EVENT_TYPE_PING_REQ)
                  else if argv ! 2 = ''ack'' then Some (typed EVENT_TYPE_ACK)
                  else if argv ! 2 = ''join'' then client_uuid H argv (typed EVENT_TYPE_JOIN)
                  else if argv ! 2 = ''leave'' then client_uuid H argv (typed EVENT_TYPE_LEAVE)
                  else None)
      in map_option (\<lambda>ev. ev\<lparr>hdr := (hdr ev)\<lparr>h_time := o_time H, h_uuid := o_uuid_generate H\<rparr>\<rparr>) made)"

definition client_reply :: "Host \<Rightarrow> Text \<Rightarrow> bool \<Rightarrow> byte list \<Rightarrow> string result" where
  "client_reply H T le bytes =
     (let n = min (length bytes) BUFSIZE; buf = take n bytes @ drop n (o_stack H BUFSIZE) in
      rbind (swim_event_string T ((zero_event 0)\<lparr>hdr := struct_header le buf\<rparr>) (t_stack T 0 BUFSIZE) BUFSIZE) (\<lambda>(ok, str).
      if ok then rbind (c_string str) (\<lambda>s. Inr (''received '' @ show_nat n @ '' bytes: '' @ s @ newline))
      else Inr []))"

definition client_main :: "Host \<Rightarrow> Text \<Rightarrow> bool \<Rightarrow> string list \<Rightarrow> Exit result" where
  "client_main H T le argv =
     (let quit = (\<lambda>st sent out. Inr \<lparr>e_status = st, e_sent = sent, e_stdout = out\<rparr>) in
      if length argv < 3 then quit 0 [] []
      else
        case o_getaddrinfo H (argv ! 1) (show_nat SWIM_DEFAULT_PORTNO) of
          None \<Rightarrow> quit EXIT_FAILURE [] []
        | Some addr \<Rightarrow>
            if \<not> o_nameable H addr then quit EXIT_FAILURE [] []
            else if o_socket H = -1 then quit EXIT_FAILURE [] []
            else
              rbind (memcpy (o_stack H SIZEOF_STORAGE) addr (length addr)) (\<lambda>serveraddr.
              case client_event H argv of
                None \<Rightarrow> quit EXIT_FAILURE [] []
              | Some ev \<Rightarrow>
                  let sent = [\<lparr>d_bytes = struct_bytes le ev, d_addr = serveraddr\<rparr>] in
                  if o_sendto H < 0 then quit EXIT_FAILURE sent []
                  else if h_type (hdr ev) \<in> {EVENT_TYPE_PING, EVENT_TYPE_JOIN, EVENT_TYPE_LEAVE} then
                    (case o_recv H of
                       None \<Rightarrow> quit EXIT_FAILURE sent []
                     | Some bytes \<Rightarrow> rbind (client_reply H T le bytes) (\<lambda>out. quit EXIT_SUCCESS sent out))
                  else quit EXIT_SUCCESS sent []))"

section \<open>Command lines of the servers\<close>

text \<open>\<open>strtol\<close> in base ten: leading white space, a sign, digits; saturation at the limits of \<open>long\<close>.\<close>

definition c_strtol :: "string \<Rightarrow> int" where
  "c_strtol s =
     (let s = dropWhile (\<lambda>c. c \<in> set [CHR '' '', CHR 0x09, CHR 0x0A, CHR 0x0B, CHR 0x0C, CHR 0x0D]) s;
          (sign, s) = (case s of c # r \<Rightarrow> if c = CHR ''-'' then (-1, r) else if c = CHR ''+'' then (1, r) else (1, s) | [] \<Rightarrow> (1, s));
          ds = takeWhile (\<lambda>c. c \<in> set ''0123456789'') s;
          v = sign * int (foldl (\<lambda>a c. 10 * a + (of_char c - 48)) 0 ds)
      in max (- (2 ^ 63)) (min (2 ^ 63 - 1) v))"

text \<open>The conversion of a \<open>long\<close> to \<open>int\<close>.\<close>

definition c_int :: "int \<Rightarrow> int" where
  "c_int v = to_signed 32 (nat (v mod 2 ^ 32))"

record Options =
  opt_verbose :: bool
  opt_tracing :: bool
  swim_listen_port :: int

abbreviation default_options :: Options where
  "default_options \<equiv> \<lparr>opt_verbose = False, opt_tracing = False, swim_listen_port = int SWIM_DEFAULT_PORTNO\<rparr>"

abbreviation SWIM_OPTSTRING :: "bool \<Rightarrow> string" where
  "SWIM_OPTSTRING tracing \<equiv> (if tracing then ''dvl:'' else ''vl:'')"

text \<open>\<open>print_usage\<close> does not return.\<close>

fun option_loop :: "bool \<Rightarrow> (char \<times> string) list \<Rightarrow> Options \<Rightarrow> Options result" where
  "option_loop tracing [] o' = Inr o'"
| "option_loop tracing ((opt, optarg) # opts) o' =
     (if tracing \<and> opt = CHR ''d'' then option_loop tracing opts (o'\<lparr>opt_tracing := True\<rparr>)
      else if opt = CHR ''v'' then option_loop tracing opts (o'\<lparr>opt_verbose := True\<rparr>)
      else if opt = CHR ''l'' then option_loop tracing opts (o'\<lparr>swim_listen_port := c_int (c_strtol optarg)\<rparr>)
      else Inl ExitFailure)"

definition parse_options :: "Host \<Rightarrow> bool \<Rightarrow> string list \<Rightarrow> (SwimAddress \<times> Options) result" where
  "parse_options H tracing argv =
     (let (opts, rest) = o_getopt H (SWIM_OPTSTRING tracing) argv in
      rbind (option_loop tracing opts default_options) (\<lambda>o'.
      let options = \<lparr>sa_addr = zero_storage, sa_addrlen = 0\<rparr> in
      case rest of
        [] \<Rightarrow> Inr (options, o')
      | hostname # others \<Rightarrow>
          let service = (case others of [] \<Rightarrow> show_nat SWIM_DEFAULT_PORTNO | s # _ \<Rightarrow> s) in
          (case o_getaddrinfo H hostname service of
             None \<Rightarrow> Inl ExitFailure
           | Some a \<Rightarrow>
               rbind (memcpy (sa_addr options) a (length a)) (\<lambda>addr.
               Inr (\<lparr>sa_addr = addr, sa_addrlen = length a\<rparr>, o')))))"

text \<open>The function of the same name in \<open>swim_server_tui.c\<close>; its usage message comes after leaving the terminal mode.\<close>

definition tui_parse_options :: "Host \<Rightarrow> bool \<Rightarrow> string list \<Rightarrow> (SwimAddress \<times> Options) result" where
  "tui_parse_options H tracing argv = parse_options H tracing argv"

text \<open>The main functions, up to the wait for the thread: \<open>None\<close> is a wait that blocks. \<open>failure\<close> is what \<open>pthread_create\<close>
  reports; the programs do not look at it. In the plain server the options \<open>-v\<close> and \<open>-d\<close> affect only the log.
  The log and the printout of the terminal program work on different parts of its static variables (\<open>log_\<close> and \<open>status_\<close>) and leave the windows alone, so each has its own copy here.\<close>

definition server_main ::
  "Ext \<Rightarrow> Host \<Rightarrow> bool \<Rightarrow> string option \<Rightarrow> string list \<Rightarrow> 'u Proc \<Rightarrow> ('u Proc \<times> 'u Proc option) result" where
  "server_main E H tracing failure argv p =
     rbind (parse_options H tracing argv) (\<lambda>(address, o').
     let p = swim_server_init E address (word_of_int (swim_listen_port o')) p in
     rbind (swim_server_start failure p) (\<lambda>(_, p).
     rbind (swim_server_wait p) (\<lambda>q. Inr (p, q))))"

definition tui_main ::
  "Ext \<Rightarrow> Host \<Rightarrow> Text \<Rightarrow> (int \<Rightarrow> int \<Rightarrow> int \<Rightarrow> int \<Rightarrow> Window option) \<Rightarrow> int \<Rightarrow> int \<Rightarrow> bool \<Rightarrow> string option \<Rightarrow> string list \<Rightarrow>
     Tui Logger \<Rightarrow> Tui Proc \<Rightarrow> (Tui \<times> Tui Logger \<times> Tui Proc \<times> Tui Proc option) result" where
  "tui_main E H T newwin rows cols tracing failure argv L p =
     rbind (tui_parse_options H tracing argv) (\<lambda>(address, o').
     let t = create_windows newwin rows cols (log_sink_userdata L);
         L = swim_set_log_sink (Some tui_log_sink) t (L\<lparr>swim_verbose := swim_verbose L \<or> opt_verbose o', swim_tracing_on := swim_tracing_on L \<or> opt_tracing o'\<rparr>);
         p = p\<lparr>pc_loop := (pc_loop p)\<lparr>l_printer := swim_state_set_print_callback (Some (tui_state_print T)) t (l_printer (pc_loop p))\<rparr>\<rparr>;
         p = swim_server_init E address (word_of_int (swim_listen_port o')) p
     in
     rbind (tui_state_print T (w_swim (l_world (pc_loop p))) t) (\<lambda>t.
     rbind (render_log t) (\<lambda>t.
     rbind (swim_server_start failure p) (\<lambda>(_, p).
     rbind (swim_server_wait p) (\<lambda>q. Inr (t, L, p, q))))))"

section \<open>What a server makes of the client's packets\<close>

text \<open>A packet with zeros where the type and the number of gossip records are expected is a ping without gossip.\<close>

lemma decode_zero_type:
  assumes len: "length buf = 2048" and ty: "take 2 (drop 2 buf) = [0, 0]" and cnt: "take 2 (drop 36 buf) = [0, 0]"
  shows "\<exists>h. swim_decode_event old buf = Inr (old\<lparr>hdr := h, gossip_count := 0\<rparr>, Some 38) \<and> h_type h = EVENT_TYPE_PING"
proof -
  have dec: "swim_make_decoder sz (drop n buf) = Inr (be_val (take sz (drop n buf)), drop (n + sz) buf)" if "n + sz \<le> 2048" for sz n
    using that len by (simp add: swim_make_decoder_def add.commute)
  have dec0: "swim_make_decoder 2 buf = Inr (be_val (take 2 buf), drop 2 buf)"
    using len by (simp add: swim_make_decoder_def)
  have uu: "swim_decode_uuid o' (drop 16 buf) = Inr (uuid_of_bytes (take 16 (drop 16 buf)), drop 32 buf)" for o'
    using len by (simp add: swim_decode_uuid_def swim_decode_fixlen_def memcpy_def uuid_bytes_def)
  have hdr: "\<exists>h. swim_decode_event_header (hdr old) buf = Inr (h, drop 36 buf) \<and> h_type h = EVENT_TYPE_PING"
    using dec0 dec [of 2 2] dec [of 4 4] dec [of 8 8] dec [of 32 4] uu ty
    by (simp add: swim_decode_event_header_def codec_defs)
  have "decode_event_gossip 2048 ev (drop 36 buf) = Inr (ev\<lparr>gossip_count := 0\<rparr>, Some 38)" for ev
    using dec [of 36 2] cnt len
    by (simp add: decode_event_gossip_def swim_decode_gossip_def codec_defs)
  with hdr show ?thesis using len by (auto simp: swim_decode_event_def)
qed

lemma client_event_cases:
  assumes "client_event H argv = Some ev"
  shows "h_type (hdr ev) \<in> {EVENT_TYPE_PING, EVENT_TYPE_PING_REQ, EVENT_TYPE_ACK, EVENT_TYPE_JOIN, EVENT_TYPE_LEAVE}"
    and "h_incarnation (hdr ev) = 0" "length (join_addr ev) = SIZEOF_STORAGE"
  using assms by (auto simp: client_event_def client_uuid_def Let_def zero_event_def split: if_splits option.splits)

lemma native_lengths [simp]: "length (native_u32 le v) = 4" "length (native_u16 le v) = 2" "length (native_u64 le v) = 8"
  by (simp_all add: native_u32_def native_u16_def native_u64_def)

lemma native_u32_True:
  "native_u32 True v = [word_of_nat v, word_of_nat (v div 256), word_of_nat (v div 256 ^ 2), word_of_nat (v div 256 ^ 3)]"
  unfolding native_u32_def by (simp add: be_bytes_numeral)

lemma struct_bytes_split:
  "struct_bytes le ev @ rest = native_u32 le (event_code (h_type (hdr ev))) @
     drop 4 (struct_bytes le ev) @ rest"
  by (simp add: struct_bytes_def)

lemma struct_bytes_padding:
  "\<exists>A B. struct_bytes le ev @ rest = A @ [0, 0] @ B \<and> length A = 36"
proof -
  let ?A = "native_u32 le (event_code (h_type (hdr ev))) @ uuid_bytes (h_uuid (hdr ev)) @ replicate 4 0 @
     native_u64 le (of_signed 64 (h_time (hdr ev))) @ native_u32 le (unat (h_incarnation (hdr ev)))"
  have "replicate 4 (0 :: byte) = [0, 0] @ [0, 0]" by code_simp
  then have "struct_bytes le ev @ rest = ?A @ [0, 0] @ ([0, 0] @ uuid_bytes (ev_uuid ev) @ native_u32 le (join_addrlen ev) @
       replicate 4 0 @ join_addr ev @ native_u16 le (gossip_count ev) @ replicate 6 0 @ rest)"
    by (simp only: struct_bytes_def append_assoc)
  moreover have "length ?A = 36" by (simp add: uuid_bytes_def)
  ultimately show ?thesis by blast
qed

lemma struct_bytes_slices:
  assumes "h_type (hdr ev) \<in> {EVENT_TYPE_PING, EVENT_TYPE_PING_REQ, EVENT_TYPE_ACK, EVENT_TYPE_JOIN, EVENT_TYPE_LEAVE}"
  shows "take 2 (drop 2 (struct_bytes True ev @ rest)) = [0, 0]" "take 2 (drop 36 (struct_bytes True ev @ rest)) = [0, 0]"
proof -
  have "event_code (h_type (hdr ev)) div 256 ^ 2 = 0" "event_code (h_type (hdr ev)) div 256 ^ 3 = 0"
    using assms by auto
  then show "take 2 (drop 2 (struct_bytes True ev @ rest)) = [0, 0]"
    by (subst struct_bytes_split) (simp add: native_u32_True del: div_eq_0_iff)
  obtain A B where "struct_bytes True ev @ rest = A @ [0, 0] @ B" "length A = 36"
    using struct_bytes_padding by blast
  then show "take 2 (drop 36 (struct_bytes True ev @ rest)) = [0, 0]"
    by (simp only: drop_append) simp
qed

text \<open>The first bytes of a message, the version and a type, are no known type when they are read as a struct.\<close>

lemma reply_type:
  assumes "take 4 bs = [0, 1, 0, b]"
  shows "\<exists>k. h_type (struct_header le bs) = EVENT_TYPE_OTHER k"
proof -
  define v where "v = be_val (if le then rev (take 4 bs) else take 4 bs)"
  have "256 \<le> v" using assms by (simp add: v_def)
  then have "event_of_code v = EVENT_TYPE_OTHER v" by (simp add: event_of_code_def)
  then show ?thesis by (simp add: struct_header_def Let_def v_def)
qed

lemma event_bytes_start:
  assumes "known_type (h_type (hdr ev))"
  shows "take 4 (event_bytes le ev) = [0, 1, 0, word_of_nat (event_code (h_type (hdr ev)))]"
proof -
  have "event_code (h_type (hdr ev)) div 256 = 0" using assms by (cases "h_type (hdr ev)") (simp_all add: known_type_def)
  then show ?thesis by (simp add: event_bytes_def header_bytes_def be_bytes_numeral del: div_eq_0_iff)
qed

lemma client_reply_silent:
  assumes "known_type (h_type (hdr ev))" "length (t_stack T 0 BUFSIZE) = BUFSIZE"
  shows "client_reply H T le (event_bytes le' ev) = Inr []"
proof -
  define n where "n = min (length (event_bytes le' ev)) BUFSIZE"
  define buf where "buf = take n (event_bytes le' ev) @ drop n (o_stack H BUFSIZE)"
  have "4 \<le> n" "n \<le> length (event_bytes le' ev)" by (simp_all add: n_def event_bytes_def)
  then have "take 4 buf = take 4 (event_bytes le' ev)" by (simp add: buf_def min_def)
  then obtain k where "h_type (struct_header le buf) = EVENT_TYPE_OTHER k"
    using reply_type [of buf] event_bytes_start [OF assms(1)] by metis
  then show ?thesis using assms(2)
    by (simp add: client_reply_def swim_event_string_def Let_def flip: n_def buf_def)
qed

lemma client_main_sent:
  assumes "client_main H T le argv = Inr e" "d \<in> set (e_sent e)"
  obtains ev where "client_event H argv = Some ev" "d_bytes d = struct_bytes le ev"
  using assms
  by (auto simp: client_main_def Let_def rbind_def split: if_splits option.splits sum.splits)

section \<open>Starting a server\<close>

text \<open>The two bytes of a port converted by \<open>htons\<close> lie in memory in network order, on either kind of machine.\<close>

lemma native_htons: "native_u16 le (unat (c_htons le v)) = be_bytes 2 (unat v)"
proof (cases le)
  case True
  have div: "unat v div 256 < 256" using unsigned_less [of v, where 'a = nat] by (simp add: less_mult_imp_div_less)
  define s where "s = 256 * (unat v mod 256) + unat v div 256"
  have "s < 65536" using div mod_less_divisor [of 256 "unat v"] unfolding s_def by linarith
  then have u: "unat (word_of_nat s :: 16 word) = s" by (simp add: unat_of_nat)
  have eq: "(word_of_nat a :: byte) = word_of_nat b" if "a mod 256 = b mod 256" for a b
    using that by (simp add: word_of_nat_eq_iff take_bit_nat_def)
  have "s div 256 mod 256 = unat v mod 256" "s mod 256 = unat v div 256 mod 256" using div by (simp_all add: s_def)
  note this [THEN eq]
  then show ?thesis using True u by (simp add: native_u16_def c_htons_def numeral_2_eq_2 flip: s_def)
qed (simp add: native_u16_def c_htons_def)

lemma show_nat_digits: "c \<in> set (show_nat n) \<Longrightarrow> c \<in> set ''0123456789''"
proof (induction n rule: show_nat.induct)
  case (1 n)
  have "''0123456789'' ! (n mod 10) \<in> set ''0123456789''" by (rule nth_mem) simp
  then show ?case using 1 by (auto simp: show_nat.simps [of n] split: if_splits)
qed

lemma digit_value: "d < 10 \<Longrightarrow> of_char (''0123456789'' ! d) - (48 :: nat) = d"
  by (auto simp: less_Suc_eq numeral_eq_Suc)

lemma show_nat_value: "foldl (\<lambda>a c. 10 * a + (of_char c - 48)) 0 (show_nat n) = n"
proof (induction n rule: show_nat.induct)
  case (1 n)
  then show ?case using digit_value [of "n mod 10"] by (simp add: show_nat.simps [of n])
qed

text \<open>\<open>strtol\<close> reads back what \<open>printf\<close> has written.\<close>

lemma c_strtol_show_nat:
  assumes "n < 2 ^ 63"
  shows "c_strtol (show_nat n) = int n"
proof -
  obtain c cs where c: "show_nat n = c # cs" by (cases "show_nat n") (simp_all add: show_nat.simps)
  then have d: "c \<in> set ''0123456789''" using show_nat_digits [of c n] by simp
  have "takeWhile (\<lambda>c. c \<in> set ''0123456789'') (show_nat n) = show_nat n"
    using show_nat_digits by (simp add: takeWhile_eq_all_conv)
  moreover have "dropWhile (\<lambda>c. c \<in> set [CHR '' '', CHR 0x09, CHR 0x0A, CHR 0x0B, CHR 0x0C, CHR 0x0D]) (show_nat n) = show_nat n"
    using c d by auto
  moreover have "c \<noteq> CHR ''-''" "c \<noteq> CHR ''+''" using d by auto
  ultimately show ?thesis
    using c show_nat_value [of n] assms by (simp add: c_strtol_def Let_def)
qed

lemma c_int_small: "0 \<le> v \<Longrightarrow> v < 2 ^ 31 \<Longrightarrow> c_int v = v"
  by (simp add: c_int_def to_signed_def)

section \<open>Examples\<close>

text \<open>A host on which every call succeeds and nothing is ever received.\<close>

definition calm_host :: "(char \<times> string) list \<Rightarrow> string list \<Rightarrow> Host" where
  "calm_host opts names =
     \<lparr>o_getaddrinfo = (\<lambda>_ _. Some (replicate 16 2)), o_nameable = (\<lambda>_. True), o_socket = 3, o_sendto = 200,
      o_recv = None, o_uuid_parse = (\<lambda>_. Some 5), o_uuid_generate = 8, o_time = 1000,
      o_stack = (\<lambda>n. replicate n 0), o_getopt = (\<lambda>_ _. (opts, names))\<rparr>"

section \<open>Properties\<close>

text \<open>C40: The client and the servers do not speak the same language on a little-endian machine. The client sends the event
  as it lies in memory, and whatever event was asked for, a server that receives the packet (in its buffer of 2048
  bytes, with anything behind the packet) takes it for a ping without gossip. The client in turn reads an encoded event,
  such as the reply to a ping, as a struct, finds no type that it knows, and prints nothing.\<close>

theorem client_packets_are_pings:
  assumes "client_main H T True argv = Inr e" "d \<in> set (e_sent e)" "length (d_bytes d @ rest) = SWIM_MAX_PACKET_SIZE"
    and "known_type (h_type (hdr reply))" "length (t_stack T 0 BUFSIZE) = BUFSIZE"
  shows "(\<exists>h. swim_decode_event old (d_bytes d @ rest) = Inr (old\<lparr>hdr := h, gossip_count := 0\<rparr>, Some 38) \<and>
             h_type h = EVENT_TYPE_PING) \<and>
         client_reply H T True (event_bytes True reply) = Inr []"
proof -
  obtain ev where ev: "client_event H argv = Some ev" "d_bytes d = struct_bytes True ev"
    using client_main_sent [OF assms(1,2)] .
  show ?thesis
    using decode_zero_type [OF assms(3)] struct_bytes_slices [OF client_event_cases(1) [OF ev(1)], of rest] ev(2)
      client_reply_silent [OF assms(4,5)] by simp
qed

theorem client_packets_are_pings_witness:
  "\<exists>d. client_main (calm_host [] []) calm_text True [''swim_client'', ''localhost'', ''join'', ''id''] =
         Inr \<lparr>e_status = EXIT_FAILURE, e_sent = [d], e_stdout = []\<rparr> \<and>
     (\<exists>h. swim_decode_event (zero_event 11) (d_bytes d @ replicate 1848 0) =
            Inr ((zero_event 11)\<lparr>hdr := h, gossip_count := 0\<rparr>, Some 38) \<and> h_type h = EVENT_TYPE_PING)"
proof -
  let ?H = "calm_host [] []" and ?argv = "[''swim_client'', ''localhost'', ''join'', ''id'']"
  obtain ev where ev: "client_event ?H ?argv = Some ev" "h_type (hdr ev) = EVENT_TYPE_JOIN" "length (join_addr ev) = SIZEOF_STORAGE"
    by (simp add: client_event_def client_uuid_def calm_host_def zero_event_def Let_def)
  let ?d = "\<lparr>d_bytes = struct_bytes True ev, d_addr = replicate 16 2 @ replicate 112 0\<rparr>"
  have run: "client_main ?H calm_text True ?argv = Inr \<lparr>e_status = EXIT_FAILURE, e_sent = [?d], e_stdout = []\<rparr>"
    using ev(1,2) by (simp add: client_main_def memcpy_def calm_host_def Let_def)
  have len: "length (d_bytes ?d @ replicate 1848 0) = SWIM_MAX_PACKET_SIZE"
    using ev(3) by (simp add: struct_bytes_def uuid_bytes_def)
  have "known_type (h_type (hdr (sample_event EVENT_TYPE_ACK)))" by (simp add: known_type_def)
  then have "\<exists>h. swim_decode_event (zero_event 11) (d_bytes ?d @ replicate 1848 0) =
      Inr ((zero_event 11)\<lparr>hdr := h, gossip_count := 0\<rparr>, Some 38) \<and> h_type h = EVENT_TYPE_PING"
    using client_packets_are_pings [OF run _ len, where reply = "sample_event EVENT_TYPE_ACK" and old = "zero_event 11"]
    by (simp add: calm_text.stack)
  then show ?thesis using run by blast
qed

text \<open>C35: A server that is given a port and a host starts as asked, on a machine of either byte order: the number read from
  the command line lies in the port of the view's own address in network byte order, the socket has its receive timeout, the
  thread is created with the host's address as the one to join, and the main program waits for it, with the invariant of
  the loop established.\<close>

theorem server_main_starts:
  assumes "willing E" "blank p" "o_getopt H (SWIM_OPTSTRING tracing) argv = ([(CHR ''l'', show_nat port)], [host, service])"
    and "o_getaddrinfo H host service = Some a" "length a \<le> SIZEOF_STORAGE" "port < 2 ^ 16"
  shows "\<exists>p'. server_main E H tracing None argv p = Inr (p', None) \<and> pc_thread p' = Running AtBegin \<and> pc_rcvtimeo p' = 10 \<and>
           loop_inv E (x_uuid_generate E) (pc_loop p') \<and>
           native_u16 (x_little_endian E) (unat (sin_port (s_addr (w_swim (l_world (pc_loop p')))))) = be_bytes 2 port \<and>
           pc_server p' = Some \<lparr>stopped = False,
             address = \<lparr>sa_addr = a @ drop (length a) zero_storage, sa_addrlen = length a\<rparr>\<rparr>"
proof -
  let ?addr = "\<lparr>sa_addr = a @ drop (length a) zero_storage, sa_addrlen = length a\<rparr>"
  have "c_int (c_strtol (show_nat port)) = int port"
    using assms(6) by (simp add: c_strtol_show_nat c_int_small)
  then have opts: "parse_options H tracing argv = Inr (?addr, default_options\<lparr>swim_listen_port := int port\<rparr>)"
    using assms(3-5) by (simp add: parse_options_def memcpy_def Let_def)
  have main: "server_main E H tracing None argv p =
      rbind (swim_server_start None (swim_server_init E ?addr (word_of_nat port) p)) (\<lambda>(_, p). rbind (swim_server_wait p) (\<lambda>q. Inr (p, q)))"
    unfolding server_main_def opts by (simp add: Let_def)
  have port: "unat (word_of_nat port :: 16 word) = port" using assms(6) by (simp add: unat_of_nat)
  obtain w' where "swim_server_init E ?addr (word_of_nat port) p =
      p\<lparr>pc_loop := (pc_loop p)\<lparr>l_world := w'\<rparr>, pc_server := Some \<lparr>stopped = False, address = ?addr\<rparr>, pc_rcvtimeo := 10\<rparr>"
    "loop_inv E (x_uuid_generate E) ((pc_loop p)\<lparr>l_world := w'\<rparr>)"
    "sin_port (s_addr (w_swim w')) = c_htons (x_little_endian E) (word_of_nat port)"
    using swim_server_init_ok [OF assms(1,2)] .
  then show ?thesis
    unfolding main by (simp add: swim_server_start_def swim_server_wait_def native_htons port)
qed

theorem server_main_starts_witness:
  "\<exists>p'. server_main calm_env (calm_host [(CHR ''l'', show_nat 4711)] [''localhost'', ''7946'']) False None [] sample_proc = Inr (p', None) \<and>
     native_u16 (x_little_endian calm_env) (unat (sin_port (s_addr (w_swim (l_world (pc_loop p')))))) = [0x12, 0x67]"
proof -
  have bytes: "be_bytes 2 4711 = [0x12, 0x67]" unfolding numeral_2_eq_2 by simp
  let ?H = "calm_host [(CHR ''l'', show_nat 4711)] [''localhost'', ''7946'']"
  have "o_getopt ?H (SWIM_OPTSTRING False) [] = ([(CHR ''l'', show_nat 4711)], [''localhost'', ''7946''])"
    "o_getaddrinfo ?H ''localhost'' ''7946'' = Some (replicate 16 2)"
    by (simp_all add: calm_host_def)
  from server_main_starts [of calm_env sample_proc, OF _ _ this] show ?thesis unfolding bytes [symmetric] by auto
qed

end
