(* ===== verification/Spec2Isabelle.thy ===== *)
theory Spec2Isabelle
  imports Swim_Prelude Swim_Node Swim_State Swim_View Swim_Gossip Swim_Probe Swim_Event Swim_Encoding Swim_Wire
    Swim_Network Swim_Cluster Swim_Process Swim_Handlers Swim_Detector Swim_Text Swim_Server Swim_Tui Swim_Programs
begin

text \<open>
  A verification development for libswim, an implementation in C of the SWIM membership protocol: a group of servers
  that find out by pings, acknowledgements and gossip which of them are alive.

  \<^bold>\<open>The program and its model.\<close> A server keeps a view, a sorted array of node records. Its loop receives an event,
  dispatches it to a handler, runs the heartbeat that ages the view and probes nodes, and now and then prints the view.
  Events travel as datagrams and carry records of the sender's view as gossip.

  \<^item> \<open>Swim_Prelude\<close>: results of C functions, loops, byte lists, and the library routines \<open>htons\<close>, \<open>bsearch\<close> and \<open>qsort\<close>.
  \<^item> \<open>Swim_Node\<close>: \<open>swim/node.h\<close> and \<open>swim/node.c\<close>, node records and statuses.
  \<^item> \<open>Swim_State\<close>: \<open>swim/state.h\<close> and the operations of \<open>swim/state.c\<close> on the view. \<open>SWIM\<close> is the struct; the invariant
    \<open>wf_swim\<close> says that the array is sorted, within its capacity, and without the server itself. \<open>Swim_View\<close> holds the
    contracts: the view stands for the finite map \<open>members\<close>, and each operation refines an operation on that map.
  \<^item> \<open>Swim_Probe\<close>: the probe schedule of \<open>swim/state.c\<close>, a shuffled round robin.
  \<^item> \<open>Swim_Gossip\<close>: merging records as the join of an order on claims, in general and for \<open>swim_state_merge\<close>.
  \<^item> \<open>Swim_Event\<close>: \<open>swim/event.h\<close>, \<open>swim/defs.h\<close> and the creation of events. \<open>Swim_Encoding\<close>: the encoders and decoders of
    \<open>swim/encoding.h\<close> and \<open>swim/encoding.c\<close> with the locales \<open>encoder\<close> and \<open>codec\<close>; \<open>Swim_Wire\<close>: what they promise for
    whole events.
  \<^item> \<open>Swim_Network\<close>, \<open>Swim_Cluster\<close>, \<open>Swim_Process\<close>: \<open>swim/network.c\<close>, \<open>swim/cluster.c\<close>, \<open>swim/process.c\<close>, function by function.
    \<open>Swim_Handlers\<close> and \<open>Swim_Detector\<close> hold the properties of the handlers and of the heartbeat.
  \<^item> \<open>Swim_Text\<close>: \<open>swim/utils.c\<close>, the printing of \<open>swim/event.c\<close> and \<open>swim/state.c\<close>, \<open>swim/logging.c\<close> and
    \<open>examples/swim_common.c\<close>.
  \<^item> \<open>Swim_Server\<close>: \<open>swim/server.c\<close> and \<open>swim/server_pthread.c\<close>. The thread is a state machine over the places of
    the loop; a step inside \<open>recvfrom\<close> is one second of waiting, and the call gives up at the timeout of the socket. The step
    relation \<open>proc_step\<close> interleaves the thread with a program that may stop it at any time.
  \<^item> \<open>Swim_Tui\<close> and \<open>Swim_Programs\<close>: \<open>examples/swim_server_tui.c\<close>, \<open>examples/swim_client.c\<close>, \<open>examples/swim_server.c\<close>.
  \<^item> This theory: properties that span the components, from a packet sent by one server to the view of another.

  \<^bold>\<open>Conventions.\<close> A function that can go wrong in C returns a \<open>result\<close>: a failed assertion, an access out of range, a null
  dereference, a signed overflow and \<open>exit\<close> are values. A pointer into the view is an index, so that pointers that outlive
  a sort are visible. An incarnation number is a 32-bit word and wraps; identifiers are the 128-bit numbers behind
  \<open>uuid_t\<close>; a time is an unbounded integer, read from and written to packets as 64 bits. The
  \<open>World\<close> holds the state of a server, what it has sent, and how often it has called \<open>rand\<close>, \<open>time\<close>, \<open>malloc\<close> and \<open>sendto\<close>.

  \<^bold>\<open>What comes from outside\<close> is a parameter: \<open>Ext\<close> (libuuid's comparison and generation, the answers of the system, the
  byte order), \<open>Text\<close> (\<open>uuid_unparse\<close>, \<open>getnameinfo\<close>, times as text, uninitialised arrays) and \<open>Host\<close> (\<open>getopt\<close>,
  \<open>getaddrinfo\<close>, sockets of the client). The locales \<open>swim_env\<close> and \<open>text_env\<close> state what is assumed of them: the comparison
  of identifiers is a total order whose zero is equality, memory has the size of its type, and the texts are as long as
  documented. \<open>calm_env\<close>, \<open>calm_text\<close> and \<open>calm_host\<close> are instances that meet the assumptions.

  \<^bold>\<open>What is shown.\<close>
  \<^item> Wire format: the encoder writes exactly the reference bytes, which always fit; what is encoded is decoded; no packet
    makes the decoder index an array out of range. A too long address overflows its object.
  \<^item> View: look-up, insertion, merging and noticing refine the finite map; the pointer that an insertion returns is
    stale in general, with the consequences for acknowledgements.
  \<^item> Probing: only nodes that are not dead, each once in a round, and none later than \<open>2 N - 1\<close> calls.
  \<^item> Gossip: its processing refines the abstract merge, is monotone, and converges whatever the order of the records;
    one ping carries a whole view from one server to another.
  \<^item> Handlers: memory safety of every handler and the invariant they keep; what each changes and sends; which packets
    stop a server; the flood of join events ends.
  \<^item> Failure detection: a heartbeat ages records by the clock and the time a node was last seen, not by the time it became
    suspect; under a clock that advances a silent node is eventually declared dead and stays so, but not before it has been
    silent for 120 seconds; bounds on the messages sent.
  \<^item> Server: the invariant in all states reachable by the thread and the stopping program, and the places and causes of a
    death of the thread; a stopped thread ends even if nothing arrives.
  \<^item> Text and terminal: printouts are exact and stay inside their buffers and windows; the log ring is a bounded list.
  \<^item> Programs: the server starts as its command line says; the client does not speak the servers' format.

  \<^bold>\<open>Bounds and termination.\<close> All functions are total; loops are recursions over the range of their counter, the scan of the
  schedule decreases with what is left of the round, and no fuel is used. A hypothesis \<open>view_size + k < 2 ^ 30\<close> keeps the
  doubling of the capacity inside \<open>int\<close>. Eleven is the number of gossip records for which the server loop has room.
  The endless loop of a server is the reachability relation, and the list of inputs in \<open>swim_server_loop\<close>. A stopped thread has
  at most 15 steps before it: ten seconds of waiting, the return of \<open>recvfrom\<close>, and the four places up to the next test.

  \<^bold>\<open>Not modelled.\<close> The calls of \<open>LOG\<close> and \<open>TRACE\<close> inside the operations, messages on the standard error stream other than the printout
  of the state, and the usage texts; \<open>LOG\<close>, \<open>TRACE\<close> and the log itself are. Of curses, colours, borders, refreshing and the
  cleanup at exit. The address that \<open>swim_process_join\<close> writes into the event it was given is not carried into the next
  iteration of the loop, where the event is overwritten by the decoder before it is used. The unit tests and the build files.
  Waiting for a thread that was not created is undefined in C and stands as a null dereference, and a length of \<open>-1\<close> given to
  \<open>sendto\<close>, which does not occur because every event fits the buffer, as an access out of range.
\<close>

section \<open>An exchange between two servers\<close>

lemma members_node: "members s u = Some ni \<Longrightarrow> \<exists>nd \<in> set (nodes s). node_uuid nd = u \<and> info nd = ni"
  unfolding members_def by (auto dest!: map_of_SomeD)

context swim_env
begin

lemma node_members:
  assumes "wf_swim E s" "nd \<in> set (nodes s)"
  shows "members s (node_uuid nd) = Some (info nd)"
  using distinct_uuids [OF assms(1)] assms(2) by (auto simp: members_def comp_def intro!: map_of_is_SomeI)

text \<open>A message made from a view whose records the format can carry is one that the format can carry.\<close>

lemma message_wire:
  assumes "wf_swim E s" "message_of s ty u ev" "known_type ty" "\<forall>ni \<in> ran (members s). wire_info ni"
  shows "wire_event ev" "gossip_count ev \<le> 10"
proof -
  have "wire_info g" if g: "g \<in> set (gossip ev)" for g
  proof -
    obtain nd where nd: "nd \<in> set (nodes s)" "same_info g (info nd)" "wf_info g"
      using assms(2) g by (auto simp: message_of_def gossip_of_def)
    then have "wire_info (info nd)" using assms(4) node_members [OF assms(1)] by (auto simp: ran_def)
    then show ?thesis using nd(2,3) by (simp add: wire_info_def same_info_def)
  qed
  then show "wire_event ev" "gossip_count ev \<le> 10"
    using assms(2,3) by (auto simp: wire_event_def message_of_def wf_event_def wire_info_def dest: in_set_takeD)
qed

end

text \<open>What arrives is what was sent.\<close>

lemma recv_message:
  assumes "wire_event ev" "gossip_count ev \<le> 11" "event_slot 11 old" "length stack = SWIM_MAX_PACKET_SIZE"
    and "length src \<le> SIZEOF_STORAGE" "length buf = SIZEOF_STORAGE"
  obtains ev' where
    "swim_recv_event (RecvDatagram (event_bytes le ev) src) stack old buf SIZEOF_STORAGE =
       Inr (int (length (event_bytes le ev)), ev', src @ drop (length src) buf, length src)"
    "same_event ev' (ev\<lparr>hdr := (hdr ev)\<lparr>h_time := wire_time le (h_time (hdr ev))\<rparr>\<rparr>)"
    "wf_event ev'"
proof -
  let ?b = "event_bytes le ev" let ?n = "length ?b"
  have b: "?n \<le> 1944" "0 < ?n"
    using length_event_bytes [of ev le] assms(1,2) by (simp_all add: wire_event_def event_bytes_def)
  have len: "length (?b @ drop ?n stack) = 2048" using b(1) assms(4) by simp
  obtain ev' where ev': "swim_decode_event old (?b @ drop ?n stack) = Inr (ev', Some ?n)"
    "same_event ev' (ev\<lparr>hdr := (hdr ev)\<lparr>h_time := wire_time le (h_time (hdr ev))\<rparr>\<rparr>)"
    using swim_decode_event_append [OF assms(1-3) len] by blast
  have "wf_event ev'" using wp_InrD [OF wp_swim_decode_event [OF assms(3) len] ev'(1)] by simp
  moreover have "swim_recv_event (RecvDatagram ?b src) stack old buf SIZEOF_STORAGE =
       Inr (int ?n, ev', src @ drop (length src) buf, length src)"
    using b ev'(1) assms(5) by (simp add: swim_recv_event_def Let_def)
  ultimately show thesis using that ev'(2) by blast
qed

text \<open>What a view becomes when its server hears from \<open>u\<close>.\<close>

definition spec_notice :: "uuid \<Rightarrow> time_t \<Rightarrow> 32 word \<Rightarrow> (uuid \<rightharpoonup> NodeInfo) \<Rightarrow> (uuid \<rightharpoonup> NodeInfo)" where
  "spec_notice u t inc m = (case m u of None \<Rightarrow> m | Some ni \<Rightarrow> m(u \<mapsto> notice_info t inc ni))"

lemma claimed_notice: "\<forall>ni \<in> ran m. claimed ni \<Longrightarrow> \<forall>ni \<in> ran (spec_notice u t inc m). claimed ni"
  by (auto simp: spec_notice_def ran_def claimed_def notice_info_def split: option.splits Status.splits if_splits)

text \<open>The processing of a ping, from the dispatch to the gossip.\<close>

lemma ping_processed:
  assumes "swim_env E" "wf_swim E (w_swim w)" "all_seen (w_swim w)" "\<forall>k. x_alloc E k" "view_size (w_swim w) + 11 < 2 ^ 30"
    and "h_type (hdr ev) = EVENT_TYPE_PING" "wf_event ev" "gossip_count ev \<le> 11" "addrlen \<le> SIZEOF_STORAGE"
    and "\<forall>ni \<in> set (take (gossip_count ev) (gossip ev)). tolerable (s_uuid (w_swim w)) ni"
  obtains w' ack where "swim_process_event E ev addr addrlen w = Inr w'" "wf_swim E (w_swim w')"
    "members (w_swim w') = fold (spec_merge (s_uuid (w_swim w))) (take (gossip_count ev) (gossip ev))
       (spec_notice (h_uuid (hdr ev)) (h_time (hdr ev)) (h_incarnation (hdr ev)) (members (w_swim w)))"
    "h_type (hdr ack) = EVENT_TYPE_ACK" "ev_uuid ack = s_uuid (w_swim w)"
    "w_sent w' = w_sent w @ [\<lparr>d_bytes = event_bytes (x_little_endian E) ack, d_addr = take addrlen addr\<rparr>]"
proof -
  let ?u = "h_uuid (hdr ev)" and ?t = "h_time (hdr ev)" and ?i = "h_incarnation (hdr ev)"
  obtain r s1 where s1: "swim_state_notice E ?u ?t ?i (w_swim w) = Inr (r, s1)" "wf_swim E s1"
    "s_uuid s1 = s_uuid (w_swim w)" "view_size s1 = view_size (w_swim w)" "members s1 = spec_notice ?u ?t ?i (members (w_swim w))"
    using swim_env.swim_state_notice_spec [OF assms(1,2), of ?u ?t ?i] all_seenD [OF assms(3), of ?u]
      assms(2) by (cases "members (w_swim w) ?u") (auto simp: spec_notice_def)
  let ?w = "w\<lparr>w_swim := s1\<rparr>"
  have wf: "wf_swim E (w_swim ?w)" using s1(2) by simp
  obtain q ack w2 where w2: "swim_send_ack E (s_uuid s1) addr addrlen ?w = Inr (q, w2)"
    "message_of (w_swim ?w) EVENT_TYPE_ACK (s_uuid s1) ack" "sends E ?w ack addr addrlen w2"
    using send_ack_ok [OF wf assms(4)] .
  have w2': "w_swim w2 = s1" using w2(3) by (simp add: sends_def)
  obtain w' where w': "swim_process_gossip E (gossip ev) (gossip_count ev) w2 = Inr w'" "wf_swim E (w_swim w')"
    "w_sent w' = w_sent w2" "members (w_swim w') = fold (spec_merge (s_uuid s1)) (take (gossip_count ev) (gossip ev)) (members s1)"
    using gossip_view [OF assms(1), of w2 "gossip_count ev" "gossip ev"] s1 w2' assms(4,5,7,8,10)
    by (auto simp: wf_event_def)
  show thesis
  proof (rule that)
    show "swim_process_event E ev addr addrlen w = Inr w'"
      using s1(1) w2(1) w'(1) assms(6) by (simp add: swim_process_event_def swim_event_processing_def swim_process_ping_def)
  qed (use w' s1 w2 assms(9) in \<open>auto simp: message_of_def sends_def\<close>)
qed

lemma list_all2_setE:
  "list_all2 R xs ys \<Longrightarrow> y \<in> set ys \<Longrightarrow> \<exists>x \<in> set xs. R x y"
  "list_all2 R xs ys \<Longrightarrow> x \<in> set xs \<Longrightarrow> \<exists>y \<in> set ys. R x y"
  by (induction rule: list_all2_induct) auto

text \<open>The gossip of a message, as it arrives, from a view that fits into it.\<close>

lemma gossip_known:
  assumes "swim_env E" "wf_swim E s" "list_all2 same_info gs (map info (nodes s))" "g \<in> set gs"
    and "\<forall>ni \<in> ran (members s). claimed ni \<and> tolerable self ni"
  shows "claimed g \<and> tolerable self g"
proof -
  obtain nd where nd: "nd \<in> set (nodes s)" "same_info g (info nd)" using list_all2_setE(2) [OF assms(3,4)] by auto
  then have "claimed (info nd) \<and> tolerable self (info nd)"
    using assms(5) swim_env.node_members [OF assms(1,2) nd(1)] by (auto simp: ran_def)
  then show ?thesis using nd(2) by (simp add: same_info_def tolerable_def seen_info_def claimed_def)
qed

lemma gossip_heard:
  assumes "list_all2 same_info gs (map info (nodes s))" "members s u = Some ni" "u \<noteq> self"
    and "\<forall>g \<in> set gs. claimed g" "\<forall>ni \<in> ran m. claimed ni"
  shows "\<exists>ni'. fold (spec_merge self) gs m u = Some ni' \<and> claim_rank ni \<le> claim_rank ni'"
proof -
  obtain g where g: "g \<in> set gs" "same_info g ni" "n_uuid ni = u"
    using members_node [OF assms(2)] list_all2_setE(1) [OF assms(1), of ni] by auto
  have "\<exists>z. fold (absorb n_uuid merge_info) (filter (\<lambda>ni. n_uuid ni \<noteq> self) gs) m (n_uuid g) = Some z \<and> claim_rank g \<le> claim_rank z"
    by (rule swim_gossip.gossip_hears) (use assms(3-5) g in \<open>auto simp: same_info_def\<close>)
  then show ?thesis using g by (simp add: fold_spec_merge same_info_def claim_rank_def)
qed

section \<open>Properties\<close>

text \<open>C4: One ping spreads a view. Server A, with fewer than ten nodes in its view, sends a ping to server B; B receives the
  datagram in a buffer and an event object of any content and processes it. Then B has taken in everything that A
  knows: each node of A's view other than B itself is in B's view, with a claim that is at least A's claim, and B has
  answered with one acknowledgement. The machines may differ in their byte order and the servers in everything else. The
  views hold claims that gossip can carry, A's does not say that B is dead, and memory is available.\<close>

theorem ping_spreads_view:
  assumes "swim_env A" "wf_swim A (w_swim wA)" "\<forall>k. x_alloc A k" "view_size (w_swim wA) < SWIM_MAX_GOSSIP_SIZE"
    and "\<forall>ni \<in> ran (members (w_swim wA)). wire_info ni \<and> claimed ni \<and> tolerable (s_uuid (w_swim wB)) ni"
    and "swim_env B" "wf_swim B (w_swim wB)" "\<forall>k. x_alloc B k" "view_size (w_swim wB) + 11 < 2 ^ 30"
    and "all_seen (w_swim wB)" "\<forall>ni \<in> ran (members (w_swim wB)). claimed ni"
    and "toLen \<le> SIZEOF_STORAGE" "length src \<le> SIZEOF_STORAGE" "length buf = SIZEOF_STORAGE"
    and "event_slot 11 old" "length stack = SWIM_MAX_PACKET_SIZE"
  shows "\<exists>r wA' d ev wB' ack.
           swim_send_ping A to toLen wA = Inr (r, wA') \<and> w_sent wA' = w_sent wA @ [d] \<and>
           swim_recv_event (RecvDatagram (d_bytes d) src) stack old buf SIZEOF_STORAGE =
             Inr (int (length (d_bytes d)), ev, src @ drop (length src) buf, length src) \<and>
           swim_process_event B ev (src @ drop (length src) buf) (length src) wB = Inr wB' \<and>
           (\<forall>u ni. u \<noteq> s_uuid (w_swim wB) \<longrightarrow> members (w_swim wA) u = Some ni \<longrightarrow>
              (\<exists>ni'. members (w_swim wB') u = Some ni' \<and> claim_rank ni \<le> claim_rank ni')) \<and>
           w_sent wB' = w_sent wB @ [\<lparr>d_bytes = event_bytes (x_little_endian B) ack, d_addr = src\<rparr>] \<and>
           h_type (hdr ack) = EVENT_TYPE_ACK \<and> ev_uuid ack = s_uuid (w_swim wB)"
proof -
  let ?self = "s_uuid (w_swim wB)" and ?addr = "src @ drop (length src) buf"
  obtain r ping wA' where ping: "swim_send_ping A to toLen wA = Inr (r, wA')"
    "message_of (w_swim wA) EVENT_TYPE_PING 0 ping" "sends A wA ping to toLen wA'"
    using send_ping_ok [OF assms(2,3)] .
  let ?d = "\<lparr>d_bytes = event_bytes (x_little_endian A) ping, d_addr = take toLen to\<rparr>"
  have sent: "w_sent wA' = w_sent wA @ [?d]" using ping(3) assms(12) by (simp add: sends_def)
  have wire: "wire_event ping" "gossip_count ping \<le> 10"
    using swim_env.message_wire [OF assms(1,2) ping(2)] assms(5) by (auto simp: known_type_def)
  then have "gossip_count ping \<le> 11" by simp
  from recv_message [OF wire(1) this assms(15,16,13,14)] obtain ev where ev:
    "swim_recv_event (RecvDatagram (d_bytes ?d) src) stack old buf SIZEOF_STORAGE =
       Inr (int (length (d_bytes ?d)), ev, ?addr, length src)"
    "same_event ev (ping\<lparr>hdr := (hdr ping)\<lparr>h_time := wire_time (x_little_endian A) (h_time (hdr ping))\<rparr>\<rparr>)" "wf_event ev"
    by auto
  let ?gs = "take (gossip_count ev) (gossip ev)"
  have cnt: "h_type (hdr ev) = EVENT_TYPE_PING" "gossip_count ev \<le> 11" and all: "list_all2 same_info ?gs (gossip ping)"
    "list_all2 same_info (gossip ping) (map info (nodes (w_swim wA)))"
    using ev(2) ping(2) assms(4) by (auto simp: same_event_def message_of_def)
  have gs: "list_all2 same_info ?gs (map info (nodes (w_swim wA)))"
    using list_all2_trans [OF same_info_trans all] .
  have known: "claimed g \<and> tolerable ?self g" if "g \<in> set ?gs" for g
    using gossip_known [OF assms(1,2) gs that] assms(5) by blast
  have tol: "\<forall>ni \<in> set ?gs. tolerable ?self ni" using known by blast
  obtain wB' ack where run: "swim_process_event B ev ?addr (length src) wB = Inr wB'" "wf_swim B (w_swim wB')"
    "members (w_swim wB') = fold (spec_merge ?self) ?gs (spec_notice (h_uuid (hdr ev)) (h_time (hdr ev)) (h_incarnation (hdr ev)) (members (w_swim wB)))"
    "h_type (hdr ack) = EVENT_TYPE_ACK" "ev_uuid ack = ?self"
    "w_sent wB' = w_sent wB @ [\<lparr>d_bytes = event_bytes (x_little_endian B) ack, d_addr = take (length src) ?addr\<rparr>]"
    using ping_processed [OF assms(6,7,10,8,9) cnt(1) ev(3) cnt(2) assms(13) tol] .
  have "\<exists>ni'. members (w_swim wB') u = Some ni' \<and> claim_rank ni \<le> claim_rank ni'"
    if "u \<noteq> ?self" "members (w_swim wA) u = Some ni" for u ni
    unfolding run(3) using gossip_heard [OF gs that(2,1) _ claimed_notice [OF assms(11)]] known by blast
  then show ?thesis using ping(1) sent ev(1) run by auto
qed

definition newcomer :: World where
  "newcomer = sample_world\<lparr>w_swim := sample_swim\<lparr>s_uuid := 4, view_size := 0\<rparr>\<rparr>"

lemma newcomer_simps [simp]:
  "wf_swim calm_env (w_swim newcomer)" "members (w_swim newcomer) = Map.empty" "all_seen (w_swim newcomer)"
  "view_size (w_swim newcomer) = 0" "s_uuid (w_swim newcomer) = 4" "w_sent newcomer = []"
  by (auto simp: newcomer_def wf_swim_def ascending_def wf_probe_def zero_node_def members_def all_seen_def sample_world_def)

theorem ping_spreads_view_witness:
  "\<exists>r wA' d ev wB' ni'.
     swim_send_ping calm_env zero_storage 16 sample_world = Inr (r, wA') \<and> w_sent wA' = [d] \<and>
     swim_recv_event (RecvDatagram (d_bytes d) (replicate 16 2)) (replicate 2048 0) (zero_event 11) zero_storage SIZEOF_STORAGE =
       Inr (int (length (d_bytes d)), ev, replicate 16 2 @ drop 16 zero_storage, 16) \<and>
     swim_process_event calm_env ev (replicate 16 2 @ drop 16 zero_storage) 16 newcomer = Inr wB' \<and>
     members (w_swim wB') 5 = Some ni' \<and> (0, SWIM_STATUS_SUSPECT) \<le> claim_rank ni'"
proof -
  let ?src = "replicate 16 (2 :: byte)"
  have "\<forall>ni \<in> ran (members (w_swim sample_world)). wire_info ni \<and> claimed ni \<and> tolerable (s_uuid (w_swim newcomer)) ni"
    by (auto simp: members_sample ran_def zero_info_def wire_info_def wf_info_def claimed_def tolerable_def seen_info_def split: if_splits)
  then have "\<exists>r wA' d ev wB' ack.
           swim_send_ping calm_env zero_storage 16 sample_world = Inr (r, wA') \<and> w_sent wA' = w_sent sample_world @ [d] \<and>
           swim_recv_event (RecvDatagram (d_bytes d) ?src) (replicate 2048 0) (zero_event 11) zero_storage SIZEOF_STORAGE =
             Inr (int (length (d_bytes d)), ev, ?src @ drop (length ?src) zero_storage, length ?src) \<and>
           swim_process_event calm_env ev (?src @ drop (length ?src) zero_storage) (length ?src) newcomer = Inr wB' \<and>
           (\<forall>u ni. u \<noteq> s_uuid (w_swim newcomer) \<longrightarrow> members (w_swim sample_world) u = Some ni \<longrightarrow>
              (\<exists>ni'. members (w_swim wB') u = Some ni' \<and> claim_rank ni \<le> claim_rank ni')) \<and>
           w_sent wB' = w_sent newcomer @ [\<lparr>d_bytes = event_bytes (x_little_endian calm_env) ack, d_addr = ?src\<rparr>] \<and>
           h_type (hdr ack) = EVENT_TYPE_ACK \<and> ev_uuid ack = s_uuid (w_swim newcomer)"
    by (intro ping_spreads_view [OF calm.swim_env_axioms _ _ _ _ calm.swim_env_axioms]) simp_all
  then obtain r wA' d ev wB' where run: "swim_send_ping calm_env zero_storage 16 sample_world = Inr (r, wA')" "w_sent wA' = [d]"
    "swim_recv_event (RecvDatagram (d_bytes d) ?src) (replicate 2048 0) (zero_event 11) zero_storage SIZEOF_STORAGE =
       Inr (int (length (d_bytes d)), ev, ?src @ drop 16 zero_storage, 16)"
    "swim_process_event calm_env ev (?src @ drop 16 zero_storage) 16 newcomer = Inr wB'"
    "\<forall>u ni. u \<noteq> 4 \<longrightarrow> members sample_swim u = Some ni \<longrightarrow> (\<exists>ni'. members (w_swim wB') u = Some ni' \<and> claim_rank ni \<le> claim_rank ni')"
    by auto
  have "members sample_swim 5 = Some (info (sample_node 5 SWIM_STATUS_SUSPECT 900))" by (simp add: members_sample)
  then obtain ni' where "members (w_swim wB') 5 = Some ni'" "claim_rank (info (sample_node 5 SWIM_STATUS_SUSPECT 900)) \<le> claim_rank ni'"
    using run(5) [rule_format, of 5] by (auto simp del: sample_node_simps)
  then show ?thesis using run(1-4) by (auto simp: claim_rank_def zero_info_def)
qed

lemma print_bad_status:
  assumes "nd \<in> set (nodes s)" "\<not> named_status (node_status nd)" "print_callback pr = None"
  shows "\<exists>e. swim_state_print T s pr = Inl e"
proof -
  obtain i where i: "i < view_size s" "i < length (view s)" "view s ! i = nd"
    using assms(1) by (auto simp: in_set_conv_nth)
  have "\<exists>e. print_node T s i out = Inl e" for out
    using print_row_bad_status [of nd] assms(2) i by (auto simp: print_node_def rbind_def split: sum.split) (metis Inl_Inr_False)
  then have "\<exists>e. for_loop (print_node T s) [0..<view_size s] out = Inl e" for out
    by (intro for_loop_fails [of i]) (use i in simp_all)
  then show ?thesis using assms(3) by (cases "uuid_arg T 0 (s_uuid s)") (auto simp: swim_state_print_def result_simps)
qed

text \<open>C37: A single packet can stop the printout of a server. A status is any number of 16 bits in a packet, and there are names
  for four of them. A ping with a gossip record that has another status, about a node that the server does not know, is
  accepted and processed, the record enters the view, and the printout of the resulting state fails: it looks the name
  up outside the table.\<close>

theorem bad_status_stops_printout:
  assumes "swim_env E" "wf_swim E (w_swim w)" "all_seen (w_swim w)" "\<forall>k. x_alloc E k" "view_size (w_swim w) + 11 < 2 ^ 30"
    and "wire_event ev" "h_type (hdr ev) = EVENT_TYPE_PING" "take (gossip_count ev) (gossip ev) = [ni]" "gossip_count ev = 1"
    and "n_status ni = SWIM_STATUS_OTHER k" "0 < n_last_seen ni" "n_uuid ni \<noteq> s_uuid (w_swim w)" "members (w_swim w) (n_uuid ni) = None"
    and "event_slot 11 old" "length stack = SWIM_MAX_PACKET_SIZE" "length src \<le> SIZEOF_STORAGE" "length buf = SIZEOF_STORAGE"
    and "print_callback pr = None"
  shows "\<exists>n ev' addr w' e. swim_recv_event (RecvDatagram (event_bytes le ev) src) stack old buf SIZEOF_STORAGE = Inr (n, ev', addr, length src) \<and>
           0 < n \<and> swim_process_event E ev' addr (length src) w = Inr w' \<and> swim_state_print T (w_swim w') pr = Inl e"
proof -
  let ?addr = "src @ drop (length src) buf" and ?self = "s_uuid (w_swim w)"
  have cnt: "gossip_count ev \<le> 11" using assms(9) by simp
  from recv_message [OF assms(6) cnt assms(14-17), of le] obtain ev' where ev':
    "swim_recv_event (RecvDatagram (event_bytes le ev) src) stack old buf SIZEOF_STORAGE =
       Inr (int (length (event_bytes le ev)), ev', ?addr, length src)"
    "same_event ev' (ev\<lparr>hdr := (hdr ev)\<lparr>h_time := wire_time le (h_time (hdr ev))\<rparr>\<rparr>)" "wf_event ev'" by auto
  have ty: "h_type (hdr ev') = EVENT_TYPE_PING" "gossip_count ev' \<le> 11"
    and "list_all2 same_info (take (gossip_count ev') (gossip ev')) [ni]"
    using ev'(2) assms(7-9) by (auto simp: same_event_def)
  then obtain g where g: "take (gossip_count ev') (gossip ev') = [g]" "same_info g ni" by (auto simp: list_all2_Cons2)
  have same: "n_uuid g = n_uuid ni" "n_status g = SWIM_STATUS_OTHER k" "0 < n_last_seen g"
    using g(2) assms(10,11) by (simp_all add: same_info_def)
  have tol: "\<forall>ni \<in> set (take (gossip_count ev') (gossip ev')). tolerable ?self ni"
    using g(1) same by (simp add: tolerable_def seen_info_def)
  let ?m = "spec_notice (h_uuid (hdr ev')) (h_time (hdr ev')) (h_incarnation (hdr ev')) (members (w_swim w))"
  obtain w' where w': "swim_process_event E ev' ?addr (length src) w = Inr w'"
    "members (w_swim w') = fold (spec_merge ?self) (take (gossip_count ev') (gossip ev')) ?m"
    by (rule ping_processed [OF assms(1-5) ty(1) ev'(3) ty(2) assms(16) tol, of ?addr])
  have "?m (n_uuid g) = None" using assms(13) same(1) by (auto simp: spec_notice_def split: option.splits)
  then have "members (w_swim w') (n_uuid g) = Some g"
    using same(1) assms(12) by (simp add: w'(2) g(1) spec_merge_def)
  then obtain nd where "nd \<in> set (nodes (w_swim w'))" "info nd = g" using members_node by blast
  then obtain e where "swim_state_print T (w_swim w') pr = Inl e"
    using print_bad_status [OF _ _ assms(18)] same(2) by (fastforce simp: named_status_def)
  moreover have "0 < int (length (event_bytes le ev))" by (simp add: event_bytes_def)
  ultimately show ?thesis using ev'(1) w'(1) by blast
qed

theorem bad_status_stops_printout_witness:
  "\<exists>ev n ev' addr w' e. swim_recv_event (RecvDatagram (event_bytes True ev) (replicate 16 2)) (replicate 2048 0) (zero_event 11)
       zero_storage SIZEOF_STORAGE = Inr (n, ev', addr, 16) \<and> 0 < n \<and>
     swim_process_event calm_env ev' addr 16 sample_world = Inr w' \<and>
     swim_state_print calm_text (w_swim w') \<lparr>print_callback = None, print_callback_userdata = (), print_stderr = []\<rparr> = Inl e"
proof -
  let ?ni = "sample_info 4 0 (SWIM_STATUS_OTHER 9) 990"
  let ?ev = "(zero_event 1)\<lparr>hdr := \<lparr>h_type = EVENT_TYPE_PING, h_uuid = 9, h_time = 1000, h_incarnation = 3\<rparr>, gossip_count := 1, gossip := [?ni]\<rparr>"
  have "wire_event ?ev"
    by (simp add: wire_event_def wf_event_def wire_info_def known_type_def zero_event_def)
  then have "\<exists>n ev' addr w' e. swim_recv_event (RecvDatagram (event_bytes True ?ev) (replicate 16 2)) (replicate 2048 0) (zero_event 11)
       zero_storage SIZEOF_STORAGE = Inr (n, ev', addr, length (replicate 16 (2 :: byte))) \<and> 0 < n \<and>
     swim_process_event calm_env ev' addr (length (replicate 16 (2 :: byte))) sample_world = Inr w' \<and>
     swim_state_print calm_text (w_swim w') \<lparr>print_callback = None, print_callback_userdata = (), print_stderr = []\<rparr> = Inl e"
    by (intro bad_status_stops_printout [OF calm.swim_env_axioms, where ni = ?ni and k = 9]) (simp_all add: members_sample)
  then show ?thesis by (simp del: length_replicate) (simp, blast)
qed

end
